theory Spec2Isabelle
  imports Complex_Main "HOL-Library.AList" "HOL-Library.Sublist" "HOL-Library.Char_ord" "HOL-Library.List_Lexorder"
begin

section \<open>sequence\_utils.h: complement and reverse\_complement\<close>

text \<open>
  \<^verbatim>\<open>detail::rc_table\<close>: the 128 entries of the source, row by row (16 per row).
  Entry 65 (\<open>A\<close>) is 84 (\<open>T\<close>), 67 (\<open>C\<close>) is 71 (\<open>G\<close>), 71 is 67, 78 (\<open>N\<close>) is 78,
  84 is 65 and 85 (\<open>U\<close>) is 65; every other upper-case entry is 4.
\<close>

definition rc_table :: "nat list" where
  "rc_table =
    [4, 4,  4, 4,  4,  4,  4, 4,  4, 4, 4, 4,  4, 4, 4,  4,
     4, 4,  4, 4,  4,  4,  4, 4,  4, 4, 4, 4,  4, 4, 4,  4,
     4, 4,  4, 4,  4,  4,  4, 4,  4, 4, 4, 4,  4, 4, 4,  4,
     4, 4,  4, 4,  4,  4,  4, 4,  4, 4, 4, 4,  4, 4, 4,  4,
     4, 84, 4, 71, 4,  4,  4, 67, 4, 4, 4, 4,  4, 4, 78, 4,
     4, 4,  4, 4,  65, 65, 4, 4,  4, 4, 4, 4,  4, 4, 4,  4,
     4, 84, 4, 71, 4,  4,  4, 67, 4, 4, 4, 4,  4, 4, 4,  4,
     4, 4,  4, 4,  65, 65, 4, 4,  4, 4, 4, 4,  4, 4, 4,  4]"

text \<open>
  \<^verbatim>\<open>complement(char base)\<close> returns \<^verbatim>\<open>rc_table[base]\<close> with no check of the index.
  A byte outside \<open>0..127\<close> indexes outside the array; the model returns \<open>None\<close> there.
\<close>

definition complement :: "char \<Rightarrow> char option" where
  "complement base =
     (if (of_char base :: nat) < length rc_table
      then Some (char_of (rc_table ! of_char base))
      else None)"

text \<open>
  The loop of \<^verbatim>\<open>reverse_complement\<close>: \<open>f\<close> and \<open>r\<close> are the positions of the two
  iterators. While \<open>f < r\<close> the two bases are complemented and exchanged, then \<open>f\<close> moves
  right and \<open>r\<close> moves left. The result is the final pair of positions and the sequence.
\<close>

function rc_loop :: "nat \<Rightarrow> nat \<Rightarrow> string \<Rightarrow> (nat \<times> nat \<times> string) option" where
  "rc_loop f r s =
     (if f < r then
        (case complement (s ! f) of
           None \<Rightarrow> None
         | Some c \<Rightarrow>
            (case complement (s ! r) of
               None \<Rightarrow> None
             | Some d \<Rightarrow> rc_loop (f + 1) (r - 1) ((s[f := d])[r := c])))
      else Some (f, r, s))"
  by pat_completeness auto
termination
  by (relation "measure (\<lambda>(f, r, s). r - f)") auto

text \<open>
  \<^verbatim>\<open>reverse_complement\<close>. \<^verbatim>\<open>std::prev(std::end(sequence))\<close> has no meaning for an
  empty sequence (it would step before \<^verbatim>\<open>begin\<close>), so the model returns \<open>None\<close> there.
  After the loop the middle base of an odd-length sequence is complemented in place.
\<close>

definition reverse_complement :: "string \<Rightarrow> string option" where
  "reverse_complement s =
     (if s = [] then None
      else
        (case rc_loop 0 (length s - 1) s of
           None \<Rightarrow> None
         | Some (f, r, s') \<Rightarrow>
             (if f = r then
                (case complement (s' ! f) of
                   None \<Rightarrow> None
                 | Some c \<Rightarrow> Some (s'[f := c]))
              else Some s')))"

section \<open>external\_variant\_candidates.cpp: fetch\_variants\<close>

text \<open>
  The parts of \<^verbatim>\<open>VcfRecord\<close> and \<^verbatim>\<open>Variant\<close> that \<^verbatim>\<open>fetch_variants\<close> reads and
  writes. Their headers are not among the sources; positions (\<^verbatim>\<open>Variant::SizeType\<close>)
  are natural numbers here.
\<close>

record vcf_record =
  chromosome_name :: string
  position :: nat
  ref_allele :: string
  alt_alleles :: "string list"

record variant =
  var_chromosome :: string
  var_position :: nat
  var_ref :: string
  var_alt :: string

text \<open>
  \<^verbatim>\<open>VcfReader\<close> is used through two calls only: \<^verbatim>\<open>count_records(region)\<close> and
  \<^verbatim>\<open>fetch_records(region, ...)\<close>. The reader is a parameter of the model.
\<close>

record 'r vcf_reader =
  count_records :: "'r \<Rightarrow> nat"
  fetch_records :: "'r \<Rightarrow> vcf_record list"

definition get_batch_regions :: "'r \<Rightarrow> 'r vcf_reader \<Rightarrow> nat \<Rightarrow> 'r list" where
  "get_batch_regions region reader max_batch_size =
     (if count_records reader region > max_batch_size then [] else [region])"

text \<open>
  \<^verbatim>\<open>std::mismatch(first1, last1, first2, last2)\<close>: both iterators advance while neither
  range is exhausted and the elements agree. The model returns what is left of each range
  from the returned iterators to the end.
\<close>

fun mismatch :: "'a list \<Rightarrow> 'a list \<Rightarrow> 'a list \<times> 'a list" where
  "mismatch (x # xs) (y # ys) = (if x = y then mismatch xs ys else (x # xs, y # ys))"
| "mismatch xs ys = (xs, ys)"

text \<open>The body of the innermost loop of \<^verbatim>\<open>fetch_variants\<close>: the variant emitted for one
  ALT allele of one record.\<close>

definition emit_variant :: "vcf_record \<Rightarrow> string \<Rightarrow> variant" where
  "emit_variant record alt_allele =
     (if length (ref_allele record) \<noteq> length alt_allele then
        (let p = mismatch (ref_allele record) alt_allele;
             new_ref_allele = fst p;
             new_alt_allele = snd p;
             new_position = position record + (length (ref_allele record) - length (fst p))
         in \<lparr>var_chromosome = chromosome_name record, var_position = new_position,
             var_ref = new_ref_allele, var_alt = new_alt_allele\<rparr>)
      else
        \<lparr>var_chromosome = chromosome_name record, var_position = position record,
         var_ref = ref_allele record, var_alt = alt_allele\<rparr>)"

definition fetch_variants :: "'r \<Rightarrow> 'r vcf_reader \<Rightarrow> variant list" where
  "fetch_variants region reader =
     (let max_batch_size = 10000;
          batches = get_batch_regions region reader max_batch_size
      in concat (map (\<lambda>batch.
           concat (map (\<lambda>record. map (emit_variant record) (alt_alleles record))
                       (fetch_records reader batch)))
           batches))"

section \<open>measure\_factory.cpp\<close>

text \<open>The measure classes that \<^verbatim>\<open>init\<close> registers, in the order of the source.\<close>

datatype measure_kind =
    AlleleFrequency | Depth | MappingQualityDivergence | MappingQualityZeroCount
  | MeanMappingQuality | ModelPosterior | Quality | QualityByDepth | GenotypeQuality
  | StrandBias | GCContent | FilteredReadFraction | ClippedReadFraction | IsDenovo
  | IsSomatic | AmbiguousReadFraction | MedianBaseQuality | MismatchCount
  | MismatchFraction | IsRefcall | SomaticContamination | DeNovoContamination
  | ReadPositionBias | AltAlleleCount | OverlapsTandemRepeat | STRLength | STRPeriod
  | PosteriorProbability | PosteriorProbabilityByDepth | ClassificationConfidence
  | SomaticHaplotypeCount | MedianSomaticMappingQuality

definition registered_measures :: "measure_kind list" where
  "registered_measures =
    [AlleleFrequency, Depth, MappingQualityDivergence, MappingQualityZeroCount,
     MeanMappingQuality, ModelPosterior, Quality, QualityByDepth, GenotypeQuality,
     StrandBias, GCContent, FilteredReadFraction, ClippedReadFraction, IsDenovo,
     IsSomatic, AmbiguousReadFraction, MedianBaseQuality, MismatchCount,
     MismatchFraction, IsRefcall, SomaticContamination, DeNovoContamination,
     ReadPositionBias, AltAlleleCount, OverlapsTandemRepeat, STRLength, STRPeriod,
     PosteriorProbability, PosteriorProbabilityByDepth, ClassificationConfidence,
     SomaticHaplotypeCount, MedianSomaticMappingQuality]"

text \<open>
  \<^verbatim>\<open>MeasureMakerMap\<close> is a map from names to makers; a maker builds the wrapped measure
  of its class, so the model stores the class. The map is an association list with one
  entry per key. \<^verbatim>\<open>name<T>()\<close> is declared in a header that is not among the sources:
  the naming function \<open>name\<close> is a parameter.
\<close>

type_synonym measure_maker_map = "(string \<times> measure_kind) list"

definition init :: "(measure_kind \<Rightarrow> string) \<Rightarrow> measure_maker_map \<Rightarrow> measure_maker_map" where
  "init name measure_makers =
     foldl (\<lambda>m k. AList.update (name k) k m) measure_makers registered_measures"

datatype user_error = UnknownMeasure string

definition do_where :: "user_error \<Rightarrow> string" where
  "do_where e = ''make_measure''"

definition do_why :: "user_error \<Rightarrow> string" where
  "do_why e = (case e of UnknownMeasure name \<Rightarrow> name @ '' is not a valid measure'')"

definition do_help :: "user_error \<Rightarrow> string" where
  "do_help e = ''See the documentation for valid measures''"

text \<open>
  \<^verbatim>\<open>make_measure\<close> keeps the map in a function-local static: the model takes the static's
  value and returns it with the result. The static starts empty and is filled on the
  first call.
\<close>

definition make_measure ::
  "(measure_kind \<Rightarrow> string) \<Rightarrow> measure_maker_map \<Rightarrow> string
     \<Rightarrow> (user_error + measure_kind) \<times> measure_maker_map" where
  "make_measure name measure_makers n =
     (let makers = (if measure_makers = [] then init name measure_makers else measure_makers)
      in (case map_of makers n of
            None \<Rightarrow> (Inl (UnknownMeasure n), makers)
          | Some k \<Rightarrow> (Inr k, makers)))"

text \<open>
  Modelled from the spec: \<^verbatim>\<open>extract_sorted_keys\<close> (utils/map\_utils.hpp) is not among
  the sources; by its name and use it returns the keys of the map in ascending order.
\<close>

definition extract_sorted_keys :: "measure_maker_map \<Rightarrow> string list" where
  "extract_sorted_keys m = sort (map fst m)"

definition get_all_measure_names ::
  "(measure_kind \<Rightarrow> string) \<Rightarrow> measure_maker_map \<Rightarrow> string list \<times> measure_maker_map" where
  "get_all_measure_names name measure_makers =
     (let makers = (if measure_makers = [] then init name measure_makers else measure_makers)
      in (extract_sorted_keys makers, makers))"

section \<open>germline\_likelihood\_model.cpp\<close>

subsection \<open>Values of type double\<close>

text \<open>
  A \<^verbatim>\<open>double\<close> is an extended real here: a finite value, one of the two infinities, or
  NaN. Arithmetic on finite values is exact (no rounding); the infinities and NaN follow
  IEEE 754.
\<close>

datatype double = NaN | NegInf | Fin real | PosInf

fun dadd :: "double \<Rightarrow> double \<Rightarrow> double" where
  "dadd (Fin a) (Fin b) = Fin (a + b)"
| "dadd NaN y = NaN"
| "dadd x NaN = NaN"
| "dadd PosInf NegInf = NaN"
| "dadd NegInf PosInf = NaN"
| "dadd PosInf y = PosInf"
| "dadd x PosInf = PosInf"
| "dadd NegInf y = NegInf"
| "dadd x NegInf = NegInf"

fun dneg :: "double \<Rightarrow> double" where
  "dneg (Fin a) = Fin (- a)"
| "dneg NaN = NaN"
| "dneg NegInf = PosInf"
| "dneg PosInf = NegInf"

definition dsub :: "double \<Rightarrow> double \<Rightarrow> double" where
  "dsub x y = dadd x (dneg y)"

text \<open>\<^verbatim>\<open>std::log\<close> applied to an unsigned value.\<close>

definition std_log :: "nat \<Rightarrow> double" where
  "std_log n = (if n = 0 then NegInf else Fin (ln (real n)))"

text \<open>
  Modelled from the spec: \<^verbatim>\<open>maths::log_sum_exp\<close> (utils/maths.hpp) is not among the
  sources. The spec gives it as \<open>ln (\<Sum> exp x\<^sub>i)\<close>, with \<open>-\<infinity>\<close> counting as probability
  zero (so two \<open>-\<infinity>\<close> give \<open>-\<infinity>\<close>, and one \<open>-\<infinity>\<close> gives the other argument) and the
  empty slice giving \<open>-\<infinity>\<close>. The two- and three-argument overloads are the same function
  on two and three values. \<open>+\<infinity>\<close> and NaN propagate.
\<close>

definition log_sum_exp :: "double list \<Rightarrow> double" where
  "log_sum_exp xs =
     (if NaN \<in> set xs then NaN
      else if PosInf \<in> set xs then PosInf
      else (let fs = [a. Fin a \<leftarrow> xs]
            in if fs = [] then NegInf else Fin (ln (sum_list (map exp fs)))))"

subsection \<open>Faults\<close>

text \<open>
  What the source leaves undefined or asserts is a fault of the model: a failed
  \<^verbatim>\<open>assert\<close>, a haplotype that the cache does not hold, and a read outside an array, a
  vector or a genotype.
\<close>

datatype fault = AssertionFailed | UnknownHaplotype | OutOfBounds

definition bindE :: "fault + 'a \<Rightarrow> ('a \<Rightarrow> fault + 'b) \<Rightarrow> fault + 'b" where
  "bindE m f = (case m of Inl e \<Rightarrow> Inl e | Inr x \<Rightarrow> f x)"

subsection \<open>The table of logarithms\<close>

text \<open>
  \<^verbatim>\<open>lnLookup\<close> has 11 entries: \<open>+\<infinity>\<close>, \<open>0.0\<close>, and the decimal expansions of \<open>ln 2\<close> to
  \<open>ln 10\<close> written to 58 places (\<open>0.693147180559945309417232121458...\<close> and so on). A
  \<^verbatim>\<open>double\<close> keeps about 17 of these digits, so each entry is the double nearest to
  \<open>ln n\<close>; in the exact arithmetic of the model the entry is \<open>ln n\<close>.
\<close>

definition lnLookup :: "double list" where
  "lnLookup =
     [PosInf,
      Fin 0,
      Fin (ln 2),
      Fin (ln 3),
      Fin (ln 4),
      Fin (ln 5),
      Fin (ln 6),
      Fin (ln 7),
      Fin (ln 8),
      Fin (ln 9),
      Fin (ln 10)]"

text \<open>
  \<^verbatim>\<open>ln(const unsigned n)\<close> of the source returns \<^verbatim>\<open>lnLookup[n]\<close> and does not check \<open>n\<close>
  (the name \<open>ln\<close> is taken in HOL). An index past the table is a fault.
\<close>

definition ln_small :: "nat \<Rightarrow> fault + double" where
  "ln_small n = (if n < length lnLookup then Inr (lnLookup ! n) else Inl OutOfBounds)"

subsection \<open>The cache and the genotype\<close>

type_synonym handle = nat

text \<open>
  Modelled from the spec: \<^verbatim>\<open>HaplotypeLikelihoodCache\<close> is not among the sources. For the
  current sample it maps a haplotype to its vector of per-read log-likelihoods, carries
  a primed flag, and a query for a haplotype it does not hold fails.
\<close>

record cache =
  primed :: bool
  vectors :: "handle \<rightharpoonup> double list"

definition is_primed :: "cache \<Rightarrow> bool" where
  "is_primed c = primed c"

definition cache_at :: "cache \<Rightarrow> handle \<Rightarrow> fault + double list" where
  "cache_at c h = (case vectors c h of None \<Rightarrow> Inl UnknownHaplotype | Some v \<Rightarrow> Inr v)"

text \<open>
  Modelled from the spec: \<^verbatim>\<open>Genotype<Haplotype>\<close> (genotype.hpp) is not among the
  sources. A genotype is a multiset of handles kept in canonical (ascending) order; it is
  normalised on construction. \<open>ploidy\<close> is the number of handles, \<open>zygosity\<close> the number
  of distinct ones, \<open>is_homozygous\<close> means zygosity 1, \<open>copy_unique_ref\<close> lists the
  distinct handles in order, \<open>count\<close> is the multiplicity, and indexing is unchecked.
\<close>

type_synonym genotype = "handle list"

definition make_genotype :: "handle list \<Rightarrow> genotype" where
  "make_genotype hs = sort hs"

definition ploidy :: "genotype \<Rightarrow> nat" where
  "ploidy g = length g"

definition zygosity :: "genotype \<Rightarrow> nat" where
  "zygosity g = length (remdups g)"

definition is_homozygous :: "genotype \<Rightarrow> bool" where
  "is_homozygous g = (zygosity g = 1)"

definition copy_unique_ref :: "genotype \<Rightarrow> handle list" where
  "copy_unique_ref g = remdups g"

definition count :: "genotype \<Rightarrow> handle \<Rightarrow> nat" where
  "count g h = count_list g h"

definition genotype_at :: "genotype \<Rightarrow> nat \<Rightarrow> fault + handle" where
  "genotype_at g i = (if i < length g then Inr (g ! i) else Inl OutOfBounds)"

subsection \<open>Sums over reads\<close>

text \<open>\<^verbatim>\<open>std::accumulate(first, last, init)\<close>: a left fold with \<open>+\<close>.\<close>

definition accumulate :: "double list \<Rightarrow> double \<Rightarrow> double" where
  "accumulate xs init0 = foldl dadd init0 xs"

text \<open>
  \<^verbatim>\<open>std::inner_product(first1, last1, first2, init, std::plus, op)\<close>: the first range
  drives the loop, the second is read at the same positions without a check, and each
  step adds \<open>op a b\<close> to the accumulator. The operation may fault (it reads the table of
  logarithms).
\<close>

fun inner_product ::
  "double list \<Rightarrow> double list \<Rightarrow> double \<Rightarrow> (double \<Rightarrow> double \<Rightarrow> fault + double)
     \<Rightarrow> fault + double" where
  "inner_product [] ys init0 op = Inr init0"
| "inner_product (x # xs) [] init0 op = Inl OutOfBounds"
| "inner_product (x # xs) (y # ys) init0 op =
     (case op x y of Inl e \<Rightarrow> Inl e | Inr t \<Rightarrow> inner_product xs ys (dadd init0 t) op)"

text \<open>
  Modelled from the spec: \<^verbatim>\<open>maths::inner_product\<close> over three ranges (utils/maths.hpp)
  is not among the sources; it is the three-range form of \<^verbatim>\<open>std::inner_product\<close>.
\<close>

fun inner_product3 ::
  "double list \<Rightarrow> double list \<Rightarrow> double list \<Rightarrow> double
     \<Rightarrow> (double \<Rightarrow> double \<Rightarrow> double \<Rightarrow> fault + double) \<Rightarrow> fault + double" where
  "inner_product3 [] ys zs init0 op = Inr init0"
| "inner_product3 (x # xs) (y # ys) (z # zs) init0 op =
     (case op x y z of Inl e \<Rightarrow> Inl e | Inr t \<Rightarrow> inner_product3 xs ys zs (dadd init0 t) op)"
| "inner_product3 (x # xs) ys zs init0 op = Inl OutOfBounds"

subsection \<open>The evaluation paths\<close>

definition evaluate_haploid :: "cache \<Rightarrow> genotype \<Rightarrow> fault + double" where
  "evaluate_haploid c genotype =
     bindE (genotype_at genotype 0) (\<lambda>h0.
     bindE (cache_at c h0) (\<lambda>log_likelihoods.
       Inr (accumulate log_likelihoods (Fin 0))))"

definition evaluate_diploid :: "cache \<Rightarrow> genotype \<Rightarrow> fault + double" where
  "evaluate_diploid c genotype =
     bindE (genotype_at genotype 0) (\<lambda>h0.
     bindE (cache_at c h0) (\<lambda>log_likelihoods1.
       if is_homozygous genotype then Inr (accumulate log_likelihoods1 (Fin 0))
       else
         bindE (genotype_at genotype 1) (\<lambda>h1.
         bindE (cache_at c h1) (\<lambda>log_likelihoods2.
           inner_product log_likelihoods1 log_likelihoods2 (Fin 0)
             (\<lambda>a b. bindE (ln_small 2) (\<lambda>ln2.
                Inr (dsub (log_sum_exp [a, b]) ln2)))))))"

definition evaluate_triploid :: "cache \<Rightarrow> genotype \<Rightarrow> fault + double" where
  "evaluate_triploid c genotype =
     bindE (genotype_at genotype 0) (\<lambda>h0.
     bindE (cache_at c h0) (\<lambda>log_likelihoods1.
       if is_homozygous genotype then Inr (accumulate log_likelihoods1 (Fin 0))
       else if zygosity genotype = 3 then
         bindE (genotype_at genotype 1) (\<lambda>h1.
         bindE (cache_at c h1) (\<lambda>log_likelihoods2.
         bindE (genotype_at genotype 2) (\<lambda>h2.
         bindE (cache_at c h2) (\<lambda>log_likelihoods3.
           inner_product3 log_likelihoods1 log_likelihoods2 log_likelihoods3 (Fin 0)
             (\<lambda>a b c. bindE (ln_small 3) (\<lambda>ln3.
                Inr (dsub (log_sum_exp [a, b, c]) ln3)))))))
       else
         bindE (genotype_at genotype 1) (\<lambda>h1.
           if h0 \<noteq> h1 then
             bindE (cache_at c h1) (\<lambda>log_likelihoods2.
               inner_product log_likelihoods1 log_likelihoods2 (Fin 0)
                 (\<lambda>a b. bindE (ln_small 2) (\<lambda>ln2. bindE (ln_small 3) (\<lambda>ln3.
                    Inr (dsub (log_sum_exp [a, dadd ln2 b]) ln3)))))
           else
             bindE (genotype_at genotype 2) (\<lambda>h2.
             bindE (cache_at c h2) (\<lambda>log_likelihoods3.
               inner_product log_likelihoods1 log_likelihoods3 (Fin 0)
                 (\<lambda>a b. bindE (ln_small 2) (\<lambda>ln2. bindE (ln_small 3) (\<lambda>ln3.
                    Inr (dsub (log_sum_exp [dadd ln2 a, b]) ln3)))))))))"

text \<open>
  The general loop of \<^verbatim>\<open>evaluate_polyploid\<close>. \<open>column\<close> fills \<^verbatim>\<open>tmp\<close> with the
  \<open>i\<close>-th entry of every vector (read without a check); \<open>poly_loop\<close> runs over the read
  positions \<open>0, 1, ...\<close> of the first vector and adds one term per read.
\<close>

fun column :: "double list list \<Rightarrow> nat \<Rightarrow> fault + double list" where
  "column [] i = Inr []"
| "column (v # vs) i =
     (if i < length v
      then (case column vs i of Inl e \<Rightarrow> Inl e | Inr tmp \<Rightarrow> Inr (v ! i # tmp))
      else Inl OutOfBounds)"

fun poly_loop :: "double list list \<Rightarrow> nat \<Rightarrow> double \<Rightarrow> nat list \<Rightarrow> fault + double" where
  "poly_loop ln_likelihoods k result [] = Inr result"
| "poly_loop ln_likelihoods k result (i # is) =
     (case column ln_likelihoods i of
        Inl e \<Rightarrow> Inl e
      | Inr tmp \<Rightarrow>
         (case ln_small k of
            Inl e \<Rightarrow> Inl e
          | Inr lnk \<Rightarrow>
              poly_loop ln_likelihoods k (dadd result (dsub (log_sum_exp tmp) lnk)) is))"

text \<open>The \<^verbatim>\<open>std::transform\<close> that collects the vector of every haplotype of the genotype.\<close>

fun collect :: "cache \<Rightarrow> handle list \<Rightarrow> fault + double list list" where
  "collect c [] = Inr []"
| "collect c (h # hs) =
     (case cache_at c h of
        Inl e \<Rightarrow> Inl e
      | Inr v \<Rightarrow> (case collect c hs of Inl e \<Rightarrow> Inl e | Inr vs \<Rightarrow> Inr (v # vs)))"

definition evaluate_polyploid :: "cache \<Rightarrow> genotype \<Rightarrow> fault + double" where
  "evaluate_polyploid c genotype =
     (let k = ploidy genotype; z = zygosity genotype in
      bindE (genotype_at genotype 0) (\<lambda>h0.
      bindE (cache_at c h0) (\<lambda>log_likelihoods1.
        if z = 1 then Inr (accumulate log_likelihoods1 (Fin 0))
        else if z = 2 then
          (let lnpm1 = std_log (k - 1);
               unique_haplotypes = copy_unique_ref genotype
           in if unique_haplotypes = [] then Inl OutOfBounds
              else
                bindE (cache_at c (last unique_haplotypes)) (\<lambda>log_likelihoods2.
                  if count genotype (hd unique_haplotypes) = 1 then
                    inner_product log_likelihoods1 log_likelihoods2 (Fin 0)
                      (\<lambda>a b. bindE (ln_small k) (\<lambda>lnk.
                         Inr (dsub (log_sum_exp [a, dadd lnpm1 b]) lnk)))
                  else
                    inner_product log_likelihoods1 log_likelihoods2 (Fin 0)
                      (\<lambda>a b. bindE (ln_small k) (\<lambda>lnk.
                         Inr (dsub (log_sum_exp [dadd lnpm1 a, b]) lnk)))))
        else
          bindE (collect c genotype) (\<lambda>ln_likelihoods.
            if ln_likelihoods = [] then Inl OutOfBounds
            else poly_loop ln_likelihoods k (Fin 0) [0 ..< length (hd ln_likelihoods)]))))"

text \<open>
  The general path of \<^verbatim>\<open>evaluate_polyploid\<close> on its own: the code that follows the two
  zygosity shortcuts. It collects the vector of every haplotype of the genotype
  (duplicates included) and adds, for each read, the \<^verbatim>\<open>log_sum_exp\<close> of that read's
  entries minus \<^verbatim>\<open>ln<>(ploidy)\<close>. This is the computation announced in the comment at
  the head of \<^verbatim>\<open>evaluate\<close> and the spec's general path, with which every
  specialisation has to agree.
\<close>

definition general_polyploid_path :: "cache \<Rightarrow> genotype \<Rightarrow> fault + double" where
  "general_polyploid_path c genotype =
     bindE (collect c genotype) (\<lambda>ln_likelihoods.
       if ln_likelihoods = [] then Inl OutOfBounds
       else poly_loop ln_likelihoods (ploidy genotype) (Fin 0)
              [0 ..< length (hd ln_likelihoods)])"

text \<open>
  \<^verbatim>\<open>evaluate_tetraploid\<close> is kept in the source but \<^verbatim>\<open>evaluate\<close> does not call it (the
  call is commented out in the switch). Its branches for zygosity 2 and 3 are not written:
  control falls to \<^verbatim>\<open>return 0\<close>.

  Modelled from the spec: \<^verbatim>\<open>maths::inner_product\<close> over four ranges (utils/maths.hpp) is
  not among the sources; it is the four-range form of \<^verbatim>\<open>std::inner_product\<close>.
\<close>

fun inner_product4 ::
  "double list \<Rightarrow> double list \<Rightarrow> double list \<Rightarrow> double list \<Rightarrow> double
     \<Rightarrow> (double \<Rightarrow> double \<Rightarrow> double \<Rightarrow> double \<Rightarrow> fault + double) \<Rightarrow> fault + double" where
  "inner_product4 [] ys zs ws init0 op = Inr init0"
| "inner_product4 (x # xs) (y # ys) (z # zs) (w # ws) init0 op =
     (case op x y z w of
        Inl e \<Rightarrow> Inl e
      | Inr t \<Rightarrow> inner_product4 xs ys zs ws (dadd init0 t) op)"
| "inner_product4 (x # xs) ys zs ws init0 op = Inl OutOfBounds"

definition evaluate_tetraploid :: "cache \<Rightarrow> genotype \<Rightarrow> fault + double" where
  "evaluate_tetraploid c genotype =
     (let z = zygosity genotype in
      bindE (genotype_at genotype 0) (\<lambda>h0.
      bindE (cache_at c h0) (\<lambda>log_likelihoods1.
        if z = 1 then Inr (accumulate log_likelihoods1 (Fin 0))
        else if z = 4 then
          bindE (genotype_at genotype 1) (\<lambda>h1.
          bindE (cache_at c h1) (\<lambda>log_likelihoods2.
          bindE (genotype_at genotype 2) (\<lambda>h2.
          bindE (cache_at c h2) (\<lambda>log_likelihoods3.
          bindE (genotype_at genotype 3) (\<lambda>h3.
          bindE (cache_at c h3) (\<lambda>log_likelihoods4.
            inner_product4 log_likelihoods1 log_likelihoods2 log_likelihoods3 log_likelihoods4
              (Fin 0)
              (\<lambda>a b c d. bindE (ln_small 4) (\<lambda>ln4.
                 Inr (dsub (log_sum_exp [a, b, c, d]) ln4)))))))))
        else Inr (Fin 0))))"

text \<open>
  \<^verbatim>\<open>evaluate\<close>: the assertion, then the switch on the ploidy. Ploidy 4 goes to
  \<^verbatim>\<open>evaluate_polyploid\<close>, as every ploidy above it does.
\<close>

definition evaluate :: "cache \<Rightarrow> genotype \<Rightarrow> fault + double" where
  "evaluate c genotype =
     (if \<not> is_primed c then Inl AssertionFailed
      else if ploidy genotype = 0 then Inr (Fin 0)
      else if ploidy genotype = 1 then evaluate_haploid c genotype
      else if ploidy genotype = 2 then evaluate_diploid c genotype
      else if ploidy genotype = 3 then evaluate_triploid c genotype
      else if ploidy genotype = 4 then evaluate_polyploid c genotype
      else evaluate_polyploid c genotype)"

subsection \<open>Agreement of two results\<close>

text \<open>
  The tolerance of the spec's specialization agreement: two finite results agree when
  they differ by at most \<open>10\<^sup>-\<^sup>9\<close>, or by at most \<open>10\<^sup>-\<^sup>1\<^sup>2\<close> times the larger
  magnitude; results that are not both finite agree when they are the same.
\<close>

definition within_tolerance :: "double \<Rightarrow> double \<Rightarrow> bool" where
  "within_tolerance x y =
     (case (x, y) of
        (Fin a, Fin b) \<Rightarrow> \<bar>a - b\<bar> \<le> 1 / 10 ^ 9 \<or> \<bar>a - b\<bar> \<le> (1 / 10 ^ 12) * max \<bar>a\<bar> \<bar>b\<bar>
      | _ \<Rightarrow> x = y)"

section \<open>Properties\<close>

lemma mismatch_lcp:
  "mismatch xs ys =
     (drop (length (longest_common_prefix xs ys)) xs,
      drop (length (longest_common_prefix xs ys)) ys)"
  by (induction xs ys rule: mismatch.induct) auto

subsection \<open>fetch\_variants\<close>

lemma emit_variant_trim:
  "emit_variant rec alt =
     (if length (ref_allele rec) \<noteq> length alt then
        \<lparr>var_chromosome = chromosome_name rec,
         var_position = position rec + length (longest_common_prefix (ref_allele rec) alt),
         var_ref = drop (length (longest_common_prefix (ref_allele rec) alt)) (ref_allele rec),
         var_alt = drop (length (longest_common_prefix (ref_allele rec) alt)) alt\<rparr>
      else
        \<lparr>var_chromosome = chromosome_name rec, var_position = position rec,
         var_ref = ref_allele rec, var_alt = alt\<rparr>)"
proof -
  have "length (longest_common_prefix (ref_allele rec) alt) \<le> length (ref_allele rec)"
    using longest_common_prefix_prefix1 [of "ref_allele rec" alt] by (rule prefix_length_le)
  then show ?thesis
    by (simp add: emit_variant_def mismatch_lcp Let_def)
qed

lemma emit_variant_suffix:
  "suffix (var_ref (emit_variant rec alt)) (ref_allele rec) \<and>
   suffix (var_alt (emit_variant rec alt)) alt"
  by (simp add: emit_variant_trim suffix_drop)

text \<open>
  Claim C6. When the reader reports more than 10000 records for the region no batch is
  formed and nothing is fetched. Otherwise every fetched record yields one variant per
  ALT allele, in order: for REF and ALT of unequal length the variant's alleles are REF and
  ALT without their longest common prefix and its position is the record's position plus
  the length of that prefix; for equal lengths the variant is the record's position, REF
  and ALT unchanged. Every emitted allele is a suffix of the allele it comes from, so
  nothing is ever removed on the right.
\<close>

theorem fetch_variants_left_trim:
  "fetch_variants region reader =
     (if count_records reader region > 10000 then []
      else concat (map (\<lambda>rec. map (\<lambda>alt.
             if length (ref_allele rec) \<noteq> length alt then
               \<lparr>var_chromosome = chromosome_name rec,
                var_position = position rec + length (longest_common_prefix (ref_allele rec) alt),
                var_ref = drop (length (longest_common_prefix (ref_allele rec) alt)) (ref_allele rec),
                var_alt = drop (length (longest_common_prefix (ref_allele rec) alt)) alt\<rparr>
             else
               \<lparr>var_chromosome = chromosome_name rec, var_position = position rec,
                var_ref = ref_allele rec, var_alt = alt\<rparr>)
           (alt_alleles rec)) (fetch_records reader region)))
   \<and> (\<forall>v \<in> set (fetch_variants region reader).
         \<exists>rec \<in> set (fetch_records reader region). \<exists>alt \<in> set (alt_alleles rec).
           v = emit_variant rec alt \<and> suffix (var_ref v) (ref_allele rec) \<and> suffix (var_alt v) alt)"
proof -
  have a: "emit_variant rec = (\<lambda>alt.
             if length (ref_allele rec) \<noteq> length alt then
               \<lparr>var_chromosome = chromosome_name rec,
                var_position = position rec + length (longest_common_prefix (ref_allele rec) alt),
                var_ref = drop (length (longest_common_prefix (ref_allele rec) alt)) (ref_allele rec),
                var_alt = drop (length (longest_common_prefix (ref_allele rec) alt)) alt\<rparr>
             else
               \<lparr>var_chromosome = chromosome_name rec, var_position = position rec,
                var_ref = ref_allele rec, var_alt = alt\<rparr>)" for rec
    by (rule ext) (rule emit_variant_trim)
  have b: "fetch_variants region reader =
     (if count_records reader region > 10000 then []
      else concat (map (\<lambda>rec. map (emit_variant rec) (alt_alleles rec)) (fetch_records reader region)))"
    by (simp add: fetch_variants_def get_batch_regions_def)
  show ?thesis
  proof (intro conjI ballI)
    show "fetch_variants region reader =
     (if count_records reader region > 10000 then []
      else concat (map (\<lambda>rec. map (\<lambda>alt.
             if length (ref_allele rec) \<noteq> length alt then
               \<lparr>var_chromosome = chromosome_name rec,
                var_position = position rec + length (longest_common_prefix (ref_allele rec) alt),
                var_ref = drop (length (longest_common_prefix (ref_allele rec) alt)) (ref_allele rec),
                var_alt = drop (length (longest_common_prefix (ref_allele rec) alt)) alt\<rparr>
             else
               \<lparr>var_chromosome = chromosome_name rec, var_position = position rec,
                var_ref = ref_allele rec, var_alt = alt\<rparr>)
           (alt_alleles rec)) (fetch_records reader region)))"
      unfolding b a ..
  next
    fix v assume "v \<in> set (fetch_variants region reader)"
    then obtain rec alt where "rec \<in> set (fetch_records reader region)" "alt \<in> set (alt_alleles rec)"
       "v = emit_variant rec alt"
      by (auto simp: b split: if_splits)
    then show "\<exists>rec \<in> set (fetch_records reader region). \<exists>alt \<in> set (alt_alleles rec).
           v = emit_variant rec alt \<and> suffix (var_ref v) (ref_allele rec) \<and> suffix (var_alt v) alt"
      using emit_variant_suffix by blast
  qed
qed

theorem fetch_variants_left_trim_witness:
  "fetch_variants () \<lparr>count_records = (\<lambda>_::unit. 2), fetch_records = (\<lambda>_. [
     \<lparr>chromosome_name = ''1'', position = 100, ref_allele = ''AT'', alt_alleles = [''A'', ''ATGT'']\<rparr>,
     \<lparr>chromosome_name = ''1'', position = 200, ref_allele = ''A'', alt_alleles = [''T'']\<rparr>])\<rparr>
   = [\<lparr>var_chromosome = ''1'', var_position = 101, var_ref = ''T'', var_alt = ''''\<rparr>,
      \<lparr>var_chromosome = ''1'', var_position = 102, var_ref = '''', var_alt = ''GT''\<rparr>,
      \<lparr>var_chromosome = ''1'', var_position = 200, var_ref = ''A'', var_alt = ''T''\<rparr>]"
  using fetch_variants_left_trim [of "()" "\<lparr>count_records = (\<lambda>_::unit. 2), fetch_records = (\<lambda>_. [
     \<lparr>chromosome_name = ''1'', position = 100, ref_allele = ''AT'', alt_alleles = [''A'', ''ATGT'']\<rparr>,
     \<lparr>chromosome_name = ''1'', position = 200, ref_allele = ''A'', alt_alleles = [''T'']\<rparr>])\<rparr>"]
  by simp

text \<open>
  Claim C7, as stated, fails: REF \<open>ACGT\<close> and ALT \<open>ACGG\<close> have the same length, so the
  guard \<^verbatim>\<open>ref_allele.size() != alt_allele.size()\<close> is false and the record is not
  trimmed. The variant at position 103 with alleles \<open>T\<close> and \<open>G\<close> is not what is emitted.
\<close>

theorem fetch_variants_equal_length_not_trimmed:
  "fetch_variants () \<lparr>count_records = (\<lambda>_::unit. 1), fetch_records = (\<lambda>_. [
     \<lparr>chromosome_name = ''1'', position = 100, ref_allele = ''ACGT'', alt_alleles = [''ACGG'']\<rparr>])\<rparr>
   \<noteq> [\<lparr>var_chromosome = ''1'', var_position = 103, var_ref = ''T'', var_alt = ''G''\<rparr>]"
  by (simp add: fetch_variants_def get_batch_regions_def emit_variant_def)

text \<open>
  Claim C7, amended. A record at position 100 with REF \<open>ACGT\<close> and the single ALT \<open>ACGG\<close>,
  fetched from a region of at most 10000 records, makes \<^verbatim>\<open>fetch_variants\<close> emit exactly
  one variant: position 100, ref \<open>ACGT\<close>, alt \<open>ACGG\<close>.
\<close>

theorem fetch_variants_acgt_acgg:
  assumes "count_records reader region \<le> 10000"
    and "fetch_records reader region =
           [\<lparr>chromosome_name = c, position = 100, ref_allele = ''ACGT'', alt_alleles = [''ACGG'']\<rparr>]"
  shows "fetch_variants region reader =
           [\<lparr>var_chromosome = c, var_position = 100, var_ref = ''ACGT'', var_alt = ''ACGG''\<rparr>]"
  using assms by (simp add: fetch_variants_def get_batch_regions_def emit_variant_def)

theorem fetch_variants_acgt_acgg_witness:
  "fetch_variants () \<lparr>count_records = (\<lambda>_::unit. 1), fetch_records = (\<lambda>_. [
     \<lparr>chromosome_name = ''1'', position = 100, ref_allele = ''ACGT'', alt_alleles = [''ACGG'']\<rparr>])\<rparr>
   = [\<lparr>var_chromosome = ''1'', var_position = 100, var_ref = ''ACGT'', var_alt = ''ACGG''\<rparr>]"
  using fetch_variants_acgt_acgg [of "\<lparr>count_records = (\<lambda>_::unit. 1), fetch_records = (\<lambda>_. [
     \<lparr>chromosome_name = ''1'', position = 100, ref_allele = ''ACGT'', alt_alleles = [''ACGG'']\<rparr>])\<rparr>"
     "()" "''1''"]
  by simp

subsection \<open>reverse\_complement\<close>

lemma rc_loop_invariant:
  assumes g: "\<forall>c \<in> set s0. complement c = Some (g c)"
  shows "length s = length s0 \<Longrightarrow> f + r + 1 = length s0 \<Longrightarrow> f \<le> r + 1 \<Longrightarrow>
     (\<forall>i < length s0. s ! i = (if i < f \<or> r < i then g (s0 ! (length s0 - 1 - i)) else s0 ! i)) \<Longrightarrow>
     \<exists>f' r' s'. rc_loop f r s = Some (f', r', s') \<and> length s' = length s0 \<and>
        f' + r' + 1 = length s0 \<and> (f' = r' \<or> f' = r' + 1) \<and>
        (\<forall>i < length s0. s' ! i = (if i < f' \<or> r' < i then g (s0 ! (length s0 - 1 - i)) else s0 ! i))"
proof (induction f r s rule: rc_loop.induct)
  case (1 f r s)
  show ?case
  proof (cases "f < r")
    case False
    with 1(3,4) have "f = r \<or> f = r + 1" by arith
    with False 1(2,3,5) show ?thesis
      by (subst rc_loop.simps) simp
  next
    case True
    from True 1(3) have fl: "f < length s0" and rl: "r < length s0" by arith+
    from 1(5) fl True have sf: "s ! f = s0 ! f" by simp
    from 1(5) rl True have sr: "s ! r = s0 ! r" by simp
    have cf: "complement (s ! f) = Some (g (s0 ! f))"
      using g fl sf by simp
    have cr: "complement (s ! r) = Some (g (s0 ! r))"
      using g rl sr by simp
    let ?s = "(s[f := g (s0 ! r)])[r := g (s0 ! f)]"
    have len: "length ?s = length s0" using 1(2) by simp
    have sum: "(f + 1) + (r - 1) + 1 = length s0" using True 1(3) by arith
    have le: "f + 1 \<le> (r - 1) + 1" using True by arith
    have inv: "\<forall>i < length s0. ?s ! i =
        (if i < f + 1 \<or> r - 1 < i then g (s0 ! (length s0 - 1 - i)) else s0 ! i)"
    proof (intro allI impI)
      fix i assume i: "i < length s0"
      consider "i = f" | "i = r" | "i \<noteq> f" "i \<noteq> r" by blast
      then show "?s ! i = (if i < f + 1 \<or> r - 1 < i then g (s0 ! (length s0 - 1 - i)) else s0 ! i)"
      proof cases
        case a: 1
        have "length s0 - 1 - f = r" using sum True by arith
        with a True fl \<open>length s = length s0\<close> show ?thesis by simp
      next
        case b: 2
        have "length s0 - 1 - r = f" using sum True by arith
        with b True rl \<open>length s = length s0\<close> show ?thesis by simp
      next
        case c: 3
        have "?s ! i = s ! i" using c by simp
        moreover have "(i < f + 1 \<or> r - 1 < i) = (i < f \<or> r < i)" using c True by arith
        ultimately show ?thesis using "1.prems"(4) i by simp
      qed
    qed
    from "1.IH" [OF True cf cr len sum le inv]
    show ?thesis
      using True cf cr by (subst rc_loop.simps) simp
  qed
qed

lemma reverse_complement_map:
  assumes g: "\<forall>c \<in> set s. complement c = Some (g c)" and ne: "s \<noteq> []"
  shows "reverse_complement s = Some (map g (rev s))"
proof -
  from ne have n: "0 + (length s - 1) + 1 = length s" by (cases s) simp_all
  have "\<exists>f' r' s'. rc_loop 0 (length s - 1) s = Some (f', r', s') \<and> length s' = length s \<and>
        f' + r' + 1 = length s \<and> (f' = r' \<or> f' = r' + 1) \<and>
        (\<forall>i < length s. s' ! i = (if i < f' \<or> r' < i then g (s ! (length s - 1 - i)) else s ! i))"
  proof (rule rc_loop_invariant [OF g _ n])
    show "\<forall>i < length s. s ! i =
        (if i < 0 \<or> length s - 1 < i then g (s ! (length s - 1 - i)) else s ! i)"
    proof (intro allI impI)
      fix i assume "i < length s"
      then have "\<not> (i < 0 \<or> length s - 1 < i)" by arith
      then show "s ! i = (if i < 0 \<or> length s - 1 < i then g (s ! (length s - 1 - i)) else s ! i)"
        by (simp only: if_False)
    qed
  qed simp_all
  then obtain f' r' s' where
    loop: "rc_loop 0 (length s - 1) s = Some (f', r', s')" and len: "length s' = length s" and
    sum: "f' + r' + 1 = length s" and fin: "f' = r' \<or> f' = r' + 1" and
    inv: "\<forall>i < length s. s' ! i = (if i < f' \<or> r' < i then g (s ! (length s - 1 - i)) else s ! i)"
    by blast
  show ?thesis
  proof (cases "f' = r'")
    case True
    then have fl: "f' < length s" and mid: "length s - 1 - f' = f'" using sum by arith+
    from inv fl True have "s' ! f' = s ! f'" by simp
    then have c: "complement (s' ! f') = Some (g (s ! f'))" using g fl by simp
    have "s'[f' := g (s ! f')] = map g (rev s)"
    proof (rule nth_equalityI)
      show "length (s'[f' := g (s ! f')]) = length (map g (rev s))" using len by simp
    next
      fix i assume "i < length (s'[f' := g (s ! f')])"
      then have i: "i < length s" using len by simp
      show "s'[f' := g (s ! f')] ! i = map g (rev s) ! i"
      proof (cases "i = f'")
        case True
        then show ?thesis using i len mid by (simp add: rev_nth)
      next
        case False
        then have "i < f' \<or> r' < i" using \<open>f' = r'\<close> by arith
        then show ?thesis using False i inv by (simp add: rev_nth)
      qed
    qed
    then show ?thesis using ne loop True c by (simp add: reverse_complement_def)
  next
    case False
    then have f: "f' = r' + 1" using fin by simp
    have "s' = map g (rev s)"
    proof (rule nth_equalityI)
      show "length s' = length (map g (rev s))" using len by simp
    next
      fix i assume "i < length s'"
      then have i: "i < length s" using len by simp
      have "i < f' \<or> r' < i" using f by arith
      then show "s' ! i = map g (rev s) ! i" using i inv by (simp add: rev_nth)
    qed
    then show ?thesis using ne loop False by (simp add: reverse_complement_def)
  qed
qed

lemma complement_bases:
  "complement (CHR ''A'') = Some (CHR ''T'')"
  "complement (CHR ''T'') = Some (CHR ''A'')"
  "complement (CHR ''C'') = Some (CHR ''G'')"
  "complement (CHR ''G'') = Some (CHR ''C'')"
  "complement (CHR ''N'') = Some (CHR ''N'')"
  by code_simp+

text \<open>
  Claim C10. On a non-empty sequence over \<open>A\<close>, \<open>C\<close>, \<open>G\<close>, \<open>T\<close>, \<open>N\<close> the function
  \<^verbatim>\<open>reverse_complement\<close> returns a sequence of the same length: the reversed input with
  \<open>A\<close> and \<open>T\<close> exchanged, \<open>C\<close> and \<open>G\<close> exchanged and \<open>N\<close> kept. Applying it to that result
  gives the input back.
\<close>

theorem reverse_complement_involution:
  assumes "s \<noteq> []"
    and "set s \<subseteq> {CHR ''A'', CHR ''C'', CHR ''G'', CHR ''T'', CHR ''N''}"
  shows "\<exists>t. reverse_complement s = Some t \<and> length t = length s \<and>
           t = map (\<lambda>c. if c = CHR ''A'' then CHR ''T'' else if c = CHR ''T'' then CHR ''A''
                         else if c = CHR ''C'' then CHR ''G'' else if c = CHR ''G'' then CHR ''C''
                         else c) (rev s) \<and>
           reverse_complement t = Some s"
proof -
  define g where "g = (\<lambda>c. if c = CHR ''A'' then CHR ''T'' else if c = CHR ''T'' then CHR ''A''
                         else if c = CHR ''C'' then CHR ''G'' else if c = CHR ''G'' then CHR ''C''
                         else c)"
  define B where "B = {CHR ''A'', CHR ''C'', CHR ''G'', CHR ''T'', CHR ''N''}"
  have vals: "g (CHR ''A'') = CHR ''T''" "g (CHR ''T'') = CHR ''A''" "g (CHR ''C'') = CHR ''G''"
    "g (CHR ''G'') = CHR ''C''" "g (CHR ''N'') = CHR ''N''"
    by (simp_all add: g_def)
  have cases_B: "c = CHR ''A'' \<or> c = CHR ''C'' \<or> c = CHR ''G'' \<or> c = CHR ''T'' \<or> c = CHR ''N''"
    if "c \<in> B" for c using that by (simp add: B_def)
  have compl: "complement c = Some (g c)" if "c \<in> B" for c
    using cases_B [OF that] by (elim disjE) (simp_all only: vals complement_bases)
  have gg: "g (g c) = c" if "c \<in> B" for c
    using cases_B [OF that] by (elim disjE) (simp_all only: vals)
  have closed: "g c \<in> B" if "c \<in> B" for c
    using cases_B [OF that] by (elim disjE) (simp_all add: vals B_def)
  have sB: "set s \<subseteq> B" using assms(2) by (simp only: B_def)
  let ?t = "map g (rev s)"
  have "\<forall>c \<in> set s. complement c = Some (g c)" using sB compl by blast
  then have 1: "reverse_complement s = Some ?t"
    using assms(1) by (rule reverse_complement_map)
  have tne: "?t \<noteq> []" using assms(1) by simp
  have "set ?t \<subseteq> B" using sB closed by auto
  then have "\<forall>c \<in> set ?t. complement c = Some (g c)" using compl by blast
  then have "reverse_complement ?t = Some (map g (rev ?t))"
    using tne by (rule reverse_complement_map)
  also have "map g (rev ?t) = map (\<lambda>c. g (g c)) s"
    by (simp add: rev_map)
  also have "\<dots> = map (\<lambda>c. c) s"
    by (rule map_cong) (use sB gg in auto)
  finally have 2: "reverse_complement ?t = Some s" by simp
  have "reverse_complement s = Some ?t \<and> length ?t = length s \<and> ?t = map g (rev s) \<and>
        reverse_complement ?t = Some s"
    using 1 2 by simp
  then have "\<exists>t. reverse_complement s = Some t \<and> length t = length s \<and> t = map g (rev s) \<and>
        reverse_complement t = Some s" by (rule exI)
  then show ?thesis unfolding g_def .
qed

theorem reverse_complement_involution_witness:
  "reverse_complement ''ACGTN'' = Some ''NACGT'' \<and> reverse_complement ''NACGT'' = Some ''ACGTN''"
  using reverse_complement_involution [of "''ACGTN''"] by simp

subsection \<open>The measure registry\<close>

lemma init_keys:
  "fst ` set (foldl (\<lambda>m k. AList.update (name k) k m) m0 ks) = fst ` set m0 \<union> name ` set ks"
proof (induction ks arbitrary: m0)
  case Nil
  show ?case by simp
next
  case (Cons a ks)
  have "fst ` set (foldl (\<lambda>m k. AList.update (name k) k m) (AList.update (name a) a m0) ks)
        = fst ` set (AList.update (name a) a m0) \<union> name ` set ks"
    by (rule Cons.IH)
  also have "fst ` set (AList.update (name a) a m0) = {name a} \<union> fst ` set m0"
    by (rule AList.dom_update)
  finally show ?case by (simp add: Un_ac)
qed

lemma init_distinct:
  "distinct (map fst m0) \<Longrightarrow> distinct (map fst (foldl (\<lambda>m k. AList.update (name k) k m) m0 ks))"
  by (induction ks arbitrary: m0) (simp_all add: AList.distinct_update)

lemma init_named:
  "(\<forall>n k. map_of m0 n = Some k \<longrightarrow> name k = n) \<Longrightarrow>
   map_of (foldl (\<lambda>m k. AList.update (name k) k m) m0 ks) n = Some k \<Longrightarrow> name k = n"
proof (induction ks arbitrary: m0)
  case Nil
  then show ?case by simp
next
  case (Cons a ks)
  have "\<forall>n k. map_of (AList.update (name a) a m0) n = Some k \<longrightarrow> name k = n"
  proof (intro allI impI)
    fix n k assume "map_of (AList.update (name a) a m0) n = Some k"
    then have "((map_of m0)(name a \<mapsto> a)) n = Some k" by (simp only: AList.update_conv')
    then show "name k = n" using Cons.prems(1) by (cases "n = name a") simp_all
  qed
  moreover have "map_of (foldl (\<lambda>m k. AList.update (name k) k m) (AList.update (name a) a m0) ks) n = Some k"
    using Cons.prems(2) by simp
  ultimately show ?case by (rule Cons.IH)
qed

lemma init_empty_keys: "fst ` set (init name []) = name ` set registered_measures"
  by (simp add: init_def init_keys)

lemma init_empty_nonempty: "init name [] \<noteq> []"
proof
  assume "init name [] = []"
  then have "fst ` set (init name []) = {}" by simp
  then show False unfolding init_empty_keys by (simp add: registered_measures_def)
qed

lemma static_makers:
  assumes "st = [] \<or> st = init name []"
  shows "(if st = [] then init name st else st) = init name []"
  using assms init_empty_nonempty by auto

lemma map_of_init_None:
  "map_of (init name []) n = None \<longleftrightarrow> n \<notin> name ` set registered_measures"
  by (simp add: map_of_eq_None_iff init_empty_keys)

text \<open>
  Claim C9. The function-local static is either still empty or already holds what
  \<^verbatim>\<open>init\<close> installs. In both cases \<^verbatim>\<open>make_measure\<close> returns a measure exactly for
  the names that \<^verbatim>\<open>init\<close> registers, and the measure returned carries the name asked
  for. For every other string the result is the \<^verbatim>\<open>UnknownMeasure\<close> error holding that
  string, whose explanation starts with the string and whose help text is the fixed
  message; no measure is built. \<^verbatim>\<open>get_all_measure_names\<close> returns the registered names
  in ascending order, each once.
\<close>

theorem make_measure_registry:
  assumes "st = [] \<or> st = init name []"
  shows "((\<exists>k. fst (make_measure name st n) = Inr k) \<longleftrightarrow> n \<in> name ` set registered_measures)
       \<and> (\<forall>k. fst (make_measure name st n) = Inr k \<longrightarrow> name k = n)
       \<and> (n \<notin> name ` set registered_measures \<longrightarrow>
            fst (make_measure name st n) = Inl (UnknownMeasure n) \<and>
            do_why (UnknownMeasure n) = n @ '' is not a valid measure'' \<and>
            do_help (UnknownMeasure n) = ''See the documentation for valid measures'')
       \<and> snd (make_measure name st n) = init name []
       \<and> get_all_measure_names name st =
            (sorted_list_of_set (name ` set registered_measures), init name [])"
proof -
  note mk = static_makers [OF assms]
  have mm: "make_measure name st n =
      (case map_of (init name []) n of
         None \<Rightarrow> (Inl (UnknownMeasure n), init name [])
       | Some k \<Rightarrow> (Inr k, init name []))"
    unfolding make_measure_def Let_def mk ..
  have named: "map_of (init name []) n = Some k \<Longrightarrow> name k = n" for k
    unfolding init_def by (rule init_named [where name = name and ?m0.0 = "[]"]) simp_all
  have a: "(\<exists>k. fst (make_measure name st n) = Inr k) \<longleftrightarrow> n \<in> name ` set registered_measures"
  proof (cases "map_of (init name []) n")
    case None
    then show ?thesis using map_of_init_None [of name n] by (simp add: mm)
  next
    case (Some k)
    then show ?thesis using map_of_init_None [of name n] by (simp add: mm)
  qed
  have b: "\<forall>k. fst (make_measure name st n) = Inr k \<longrightarrow> name k = n"
  proof (cases "map_of (init name []) n")
    case None
    then show ?thesis by (simp add: mm)
  next
    case (Some k)
    then show ?thesis using named [of k] by (simp add: mm)
  qed
  have c: "n \<notin> name ` set registered_measures \<longrightarrow>
            fst (make_measure name st n) = Inl (UnknownMeasure n) \<and>
            do_why (UnknownMeasure n) = n @ '' is not a valid measure'' \<and>
            do_help (UnknownMeasure n) = ''See the documentation for valid measures''"
  proof
    assume "n \<notin> name ` set registered_measures"
    then have "map_of (init name []) n = None" using map_of_init_None [of name n] by blast
    then show "fst (make_measure name st n) = Inl (UnknownMeasure n) \<and>
            do_why (UnknownMeasure n) = n @ '' is not a valid measure'' \<and>
            do_help (UnknownMeasure n) = ''See the documentation for valid measures''"
      by (simp add: mm do_why_def do_help_def)
  qed
  have d: "snd (make_measure name st n) = init name []"
    by (cases "map_of (init name []) n") (simp_all add: mm)
  have dist: "distinct (map fst (init name []))"
    unfolding init_def by (rule init_distinct) simp
  have "sort (map fst (init name [])) = sorted_list_of_set (set (map fst (init name [])))"
    by (simp only: sorted_list_of_set_sort_remdups distinct_remdups_id [OF dist])
  also have "set (map fst (init name [])) = name ` set registered_measures"
    using init_empty_keys [of name] by simp
  finally have e: "get_all_measure_names name st =
            (sorted_list_of_set (name ` set registered_measures), init name [])"
    unfolding get_all_measure_names_def Let_def mk extract_sorted_keys_def by simp
  from a b c d e show ?thesis by (intro conjI)
qed

theorem make_measure_registry_witness:
  "fst (make_measure (\<lambda>k. case k of Depth \<Rightarrow> ''DP'' | Quality \<Rightarrow> ''QUAL'' | _ \<Rightarrow> ''AF'') [] ''MQ'')
     = Inl (UnknownMeasure ''MQ'')
   \<and> (\<exists>k. fst (make_measure (\<lambda>k. case k of Depth \<Rightarrow> ''DP'' | Quality \<Rightarrow> ''QUAL'' | _ \<Rightarrow> ''AF'') [] ''DP'')
     = Inr k)
   \<and> fst (get_all_measure_names (\<lambda>k. case k of Depth \<Rightarrow> ''DP'' | Quality \<Rightarrow> ''QUAL'' | _ \<Rightarrow> ''AF'') [])
     = [''AF'', ''DP'', ''QUAL'']"
proof -
  let ?nm = "\<lambda>k. case k of Depth \<Rightarrow> ''DP'' | Quality \<Rightarrow> ''QUAL'' | _ \<Rightarrow> ''AF''"
  have keys: "?nm ` set registered_measures = set [''AF'', ''DP'', ''QUAL'']"
    by (auto simp: registered_measures_def)
  have srt: "sorted_list_of_set (set [''AF'', ''DP'', ''QUAL'']) = [''AF'', ''DP'', ''QUAL'']"
    by code_simp
  have mq: "''MQ'' \<notin> set [''AF'', ''DP'', ''QUAL'']" and dp: "''DP'' \<in> set [''AF'', ''DP'', ''QUAL'']"
    by simp_all
  note t1 = make_measure_registry [of "[]" ?nm "''MQ''", unfolded keys srt]
  note t2 = make_measure_registry [of "[]" ?nm "''DP''", unfolded keys srt]
  have 1: "fst (make_measure ?nm [] ''MQ'') = Inl (UnknownMeasure ''MQ'')"
    using t1 mq by blast
  have 2: "\<exists>k. fst (make_measure ?nm [] ''DP'') = Inr k"
    using t2 dp by blast
  have "get_all_measure_names ?nm [] = ([''AF'', ''DP'', ''QUAL''], init ?nm [])"
    using t2 by blast
  then have 3: "fst (get_all_measure_names ?nm []) = [''AF'', ''DP'', ''QUAL'']"
    by (simp only: fst_conv)
  from 1 2 3 show ?thesis by (intro conjI)
qed

subsection \<open>The genotype likelihood model\<close>

lemma bindE_Inl [simp]: "bindE (Inl e) f = Inl e"
  by (simp add: bindE_def)

lemma bindE_Inr [simp]: "bindE (Inr x) f = f x"
  by (simp add: bindE_def)

lemma ln_small_values:
  "ln_small 0 = Inr PosInf"
  "ln_small 1 = Inr (Fin 0)"
  "ln_small 2 = Inr (Fin (ln 2))"
  "ln_small 3 = Inr (Fin (ln 3))"
  "ln_small 4 = Inr (Fin (ln 4))"
  by (simp_all add: ln_small_def lnLookup_def)

lemma inner_product_total:
  "length xs \<le> length ys \<Longrightarrow> (\<And>a b. op a b = Inr (f a b)) \<Longrightarrow>
   inner_product xs ys i op = Inr (foldl dadd i (map2 f xs ys))"
  by (induction xs ys i op rule: inner_product.induct) simp_all

lemma inner_product3_total:
  "length xs \<le> length ys \<Longrightarrow> length xs \<le> length zs \<Longrightarrow> (\<And>a b c. op a b c = Inr (f a b c)) \<Longrightarrow>
   inner_product3 xs ys zs i op = Inr (foldl dadd i (map (\<lambda>(a, b, c). f a b c) (zip xs (zip ys zs))))"
  by (induction xs ys zs i op rule: inner_product3.induct) simp_all

lemma log_sum_exp_commute2: "log_sum_exp [a, b] = log_sum_exp [b, a]"
  by (cases a; cases b) (simp_all add: log_sum_exp_def add.commute)

lemma map2_swap: "map2 f xs ys = map2 (\<lambda>y x. f x y) ys xs"
  by (induction xs ys rule: list_induct2') simp_all

lemma remdups_replicate_eq: "remdups (replicate k h) = (if k = 0 then [] else [h])"
  by (induction k) auto

lemma zygosity_replicate: "0 < k \<Longrightarrow> zygosity (replicate k h) = 1"
  by (simp add: zygosity_def remdups_replicate_eq)

lemma sort_replicate: "sort (replicate k (h::nat)) = replicate k h"
  by (rule sorted_sort_id) (simp add: sorted_replicate)

lemma accumulate_finite: "accumulate (map Fin rs) (Fin a) = Fin (a + sum_list rs)"
  by (induction rs arbitrary: a) (simp_all add: accumulate_def add.assoc)

text \<open>
  Claim C2. For a primed cache that holds the vector \<open>L\<close> of haplotype \<open>h\<close>, the genotype
  of \<open>k \<ge> 1\<close> copies of \<open>h\<close> evaluates to \<^verbatim>\<open>std::accumulate\<close> of \<open>L\<close> from \<open>0.0\<close>, the
  plain left-to-right sum of the entries, for every ploidy \<open>k\<close>: no log-sum-exp and no
  logarithm of the ploidy enters. When all entries are finite this is the sum of the list.
\<close>

theorem evaluate_homozygous:
  assumes "is_primed c" and "vectors c h = Some L" and "1 \<le> k"
  shows "evaluate c (make_genotype (replicate k h)) = Inr (accumulate L (Fin 0))
       \<and> accumulate L (Fin 0) = foldl dadd (Fin 0) L
       \<and> (\<forall>rs. L = map Fin rs \<longrightarrow>
             evaluate c (make_genotype (replicate k h)) = Inr (Fin (sum_list rs)))"
proof -
  have g: "make_genotype (replicate k h) = replicate k h"
    by (simp add: make_genotype_def sort_replicate)
  have z: "zygosity (replicate k h) = 1"
    using assms(3) by (simp add: zygosity_replicate)
  have a0: "genotype_at (replicate k h) 0 = Inr h"
    using assms(3) by (simp add: genotype_at_def)
  have ca: "cache_at c h = Inr L"
    using assms(2) by (simp add: cache_at_def)
  have hap: "evaluate_haploid c (replicate k h) = Inr (accumulate L (Fin 0))"
    by (simp add: evaluate_haploid_def a0 ca)
  have dip: "evaluate_diploid c (replicate k h) = Inr (accumulate L (Fin 0))"
    by (simp add: evaluate_diploid_def a0 ca is_homozygous_def z)
  have tri: "evaluate_triploid c (replicate k h) = Inr (accumulate L (Fin 0))"
    by (simp add: evaluate_triploid_def a0 ca is_homozygous_def z)
  have pol: "evaluate_polyploid c (replicate k h) = Inr (accumulate L (Fin 0))"
    by (simp add: evaluate_polyploid_def a0 ca z)
  have ev: "evaluate c (replicate k h) = Inr (accumulate L (Fin 0))"
    unfolding evaluate_def ploidy_def length_replicate hap dip tri pol
    using assms(1,3) by simp
  have "evaluate c (replicate k h) = Inr (Fin (sum_list rs))" if "L = map Fin rs" for rs
    using ev that accumulate_finite [of rs 0] by simp
  then show ?thesis using ev g by (simp add: accumulate_def)
qed

theorem evaluate_homozygous_witness:
  "evaluate \<lparr>primed = True, vectors = [7 \<mapsto> [Fin (-1), Fin (-2), NegInf]]\<rparr>
     (make_genotype (replicate 6 7)) = Inr NegInf
   \<and> evaluate \<lparr>primed = True, vectors = [7 \<mapsto> [Fin (-1), Fin (-2)]]\<rparr>
     (make_genotype (replicate 5 7)) = Inr (Fin (-3))"
  using evaluate_homozygous [of "\<lparr>primed = True, vectors = [7 \<mapsto> [Fin (-1), Fin (-2), NegInf]]\<rparr>"
           7 "[Fin (-1), Fin (-2), NegInf]" 6, THEN conjunct1]
        evaluate_homozygous [of "\<lparr>primed = True, vectors = [7 \<mapsto> [Fin (-1), Fin (-2)]]\<rparr>"
           7 "[Fin (-1), Fin (-2)]" 5, THEN conjunct1]
  by (simp add: is_primed_def accumulate_def)

text \<open>
  Claim C1. For a primed cache holding vectors \<open>L1\<close> and \<open>L2\<close> of equal length for two
  different haplotypes, the diploid genotype of the two evaluates to the sum over the
  reads \<open>r\<close> of \<open>log_sum_exp (L1[r], L2[r]) - ln 2\<close>. For \<open>L1 = [ln 0.9, ln 0.1]\<close> and
  \<open>L2 = [ln 0.1, ln 0.9]\<close> the result is \<open>2 ln 0.5\<close>.
\<close>

theorem evaluate_diploid_heterozygous:
  assumes "is_primed c" and "h1 \<noteq> h2"
    and "vectors c h1 = Some L1" and "vectors c h2 = Some L2" and "length L1 = length L2"
  shows "evaluate c (make_genotype [h1, h2]) =
           Inr (accumulate (map2 (\<lambda>a b. dsub (log_sum_exp [a, b]) (Fin (ln 2))) L1 L2) (Fin 0))
       \<and> (L1 = [Fin (ln (9 / 10)), Fin (ln (1 / 10))] \<and> L2 = [Fin (ln (1 / 10)), Fin (ln (9 / 10))]
            \<longrightarrow> evaluate c (make_genotype [h1, h2]) = Inr (Fin (2 * ln (1 / 2))))"
proof -
  let ?f = "\<lambda>a b. dsub (log_sum_exp [a, b]) (Fin (ln 2))"
  let ?op = "\<lambda>a b. bindE (ln_small 2) (\<lambda>ln2. Inr (dsub (log_sum_exp [a, b]) ln2))"
  have op: "?op a b = Inr (?f a b)" for a b
    by (simp add: ln_small_values)
  have c1: "cache_at c h1 = Inr L1" and c2: "cache_at c h2 = Inr L2"
    using assms(3,4) by (simp_all add: cache_at_def)
  have main: "evaluate c (make_genotype [h1, h2]) = Inr (accumulate (map2 ?f L1 L2) (Fin 0))"
  proof (cases "h1 \<le> h2")
    case True
    then have g: "make_genotype [h1, h2] = [h1, h2]" by (simp add: make_genotype_def)
    have "evaluate_diploid c [h1, h2] = inner_product L1 L2 (Fin 0) ?op"
      using assms(2) by (simp add: evaluate_diploid_def genotype_at_def c1 c2 is_homozygous_def zygosity_def)
    also have "\<dots> = Inr (foldl dadd (Fin 0) (map2 ?f L1 L2))"
      using assms(5) op by (intro inner_product_total) simp_all
    finally show ?thesis using assms(1) by (simp add: g evaluate_def ploidy_def accumulate_def)
  next
    case False
    then have g: "make_genotype [h1, h2] = [h2, h1]" by (simp add: make_genotype_def)
    have "evaluate_diploid c [h2, h1] = inner_product L2 L1 (Fin 0) ?op"
      using assms(2) by (simp add: evaluate_diploid_def genotype_at_def c1 c2 is_homozygous_def zygosity_def)
    also have "\<dots> = Inr (foldl dadd (Fin 0) (map2 ?f L2 L1))"
      using assms(5) op by (intro inner_product_total) simp_all
    also have "map2 ?f L2 L1 = map2 (\<lambda>y x. ?f x y) L1 L2" by (rule map2_swap)
    also have "(\<lambda>y x. ?f x y) = ?f"
      by (intro ext) (simp add: log_sum_exp_commute2)
    finally show ?thesis using assms(1) by (simp add: g evaluate_def ploidy_def accumulate_def)
  qed
  have inst: "accumulate (map2 ?f [Fin (ln (9 / 10)), Fin (ln (1 / 10))]
                 [Fin (ln (1 / 10)), Fin (ln (9 / 10))]) (Fin 0) = Fin (2 * ln (1 / 2))"
  proof -
    have l1: "log_sum_exp [Fin (ln (9 / 10)), Fin (ln (1 / 10))] = Fin 0"
      by (simp add: log_sum_exp_def)
    have l2: "log_sum_exp [Fin (ln (1 / 10)), Fin (ln (9 / 10))] = Fin 0"
      by (simp add: log_sum_exp_def)
    have h: "ln (1 / 2 :: real) = - ln 2"
      by (simp add: ln_div)
    show ?thesis
      by (simp add: accumulate_def l1 l2 dsub_def h)
  qed
  show ?thesis using main inst by simp
qed

theorem evaluate_diploid_heterozygous_witness:
  "evaluate \<lparr>primed = True,
            vectors = [1 \<mapsto> [Fin (ln (9 / 10)), Fin (ln (1 / 10))],
                       2 \<mapsto> [Fin (ln (1 / 10)), Fin (ln (9 / 10))]]\<rparr>
     (make_genotype [1, 2]) = Inr (Fin (2 * ln (1 / 2)))"
  using evaluate_diploid_heterozygous [of "\<lparr>primed = True,
            vectors = [1 \<mapsto> [Fin (ln (9 / 10)), Fin (ln (1 / 10))],
                       2 \<mapsto> [Fin (ln (1 / 10)), Fin (ln (9 / 10))]]\<rparr>" 1 2
        "[Fin (ln (9 / 10)), Fin (ln (1 / 10))]" "[Fin (ln (1 / 10)), Fin (ln (9 / 10))]",
        THEN conjunct2]
  by (simp add: is_primed_def)

lemma triploid_arrangements:
  assumes "length hs = 3" and "count_list hs d = 2" and "count_list hs s = 1" and "d \<noteq> s"
  shows "hs = [d, d, s] \<or> hs = [d, s, d] \<or> hs = [s, d, d]"
proof -
  from assms(1) obtain a b c where hs: "hs = [a, b, c]"
    by (cases hs; cases "tl hs"; cases "tl (tl hs)") auto
  show ?thesis using assms(2,3,4) unfolding hs by (auto split: if_splits)
qed

lemma sort_triploid:
  assumes "hs = [d, d, s] \<or> hs = [d, s, d] \<or> hs = [s, d, d]" and "d \<noteq> (s::nat)"
  shows "sort hs = (if s < d then [s, d, d] else [d, d, s])"
  using assms by auto

text \<open>
  Claim C3. Take a primed cache and a triploid genotype built from three handles in any
  order, one handle \<open>u_dbl\<close> occurring twice (vector \<open>L_dbl\<close>) and another \<open>u_sgl\<close> once
  (vector \<open>L_sgl\<close>, of the same length). The result is the sum over the reads \<open>r\<close> of
  \<open>log_sum_exp (L_sgl[r], ln 2 + L_dbl[r]) - ln 3\<close>. The statement does not depend on
  which of the two handles is the smaller one, that is, on which of the two branches
  after the test \<^verbatim>\<open>genotype[0] != genotype[1]\<close> runs: both give this value.
\<close>

theorem evaluate_triploid_zygosity2:
  assumes "is_primed c" and "u_dbl \<noteq> u_sgl"
    and "length hs = 3" and "count_list hs u_dbl = 2" and "count_list hs u_sgl = 1"
    and "vectors c u_dbl = Some L_dbl" and "vectors c u_sgl = Some L_sgl"
    and "length L_dbl = length L_sgl"
  shows "evaluate c (make_genotype hs) =
           Inr (accumulate
                  (map2 (\<lambda>s d. dsub (log_sum_exp [s, dadd (Fin (ln 2)) d]) (Fin (ln 3))) L_sgl L_dbl)
                  (Fin 0))"
proof -
  let ?f = "\<lambda>s d. dsub (log_sum_exp [s, dadd (Fin (ln 2)) d]) (Fin (ln 3))"
  let ?opA = "\<lambda>a b. bindE (ln_small 2) (\<lambda>ln2. bindE (ln_small 3) (\<lambda>ln3.
                    Inr (dsub (log_sum_exp [a, dadd ln2 b]) ln3)))"
  let ?opB = "\<lambda>a b. bindE (ln_small 2) (\<lambda>ln2. bindE (ln_small 3) (\<lambda>ln3.
                    Inr (dsub (log_sum_exp [dadd ln2 a, b]) ln3)))"
  have opA: "?opA a b = Inr (?f a b)" for a b
    by (simp add: ln_small_values)
  have opB: "?opB a b = Inr (?f b a)" for a b
    by (simp add: ln_small_values log_sum_exp_commute2)
  have cd: "cache_at c u_dbl = Inr L_dbl" and cs: "cache_at c u_sgl = Inr L_sgl"
    using assms(6,7) by (simp_all add: cache_at_def)
  have srt: "make_genotype hs = (if u_sgl < u_dbl then [u_sgl, u_dbl, u_dbl] else [u_dbl, u_dbl, u_sgl])"
    unfolding make_genotype_def
    by (rule sort_triploid [OF triploid_arrangements [OF assms(3,4,5,2)] assms(2)])
  show ?thesis
  proof (cases "u_sgl < u_dbl")
    case True
    then have g: "make_genotype hs = [u_sgl, u_dbl, u_dbl]" using srt by simp
    have "evaluate_triploid c [u_sgl, u_dbl, u_dbl] = inner_product L_sgl L_dbl (Fin 0) ?opA"
      using assms(2)
      by (simp add: evaluate_triploid_def genotype_at_def cd cs is_homozygous_def zygosity_def)
    also have "\<dots> = Inr (foldl dadd (Fin 0) (map2 ?f L_sgl L_dbl))"
      using assms(8) opA by (intro inner_product_total) simp_all
    finally show ?thesis using assms(1) by (simp add: g evaluate_def ploidy_def accumulate_def)
  next
    case False
    then have g: "make_genotype hs = [u_dbl, u_dbl, u_sgl]" using srt by simp
    have "evaluate_triploid c [u_dbl, u_dbl, u_sgl] = inner_product L_dbl L_sgl (Fin 0) ?opB"
      using assms(2)
      by (simp add: evaluate_triploid_def genotype_at_def cd cs is_homozygous_def zygosity_def)
    also have "\<dots> = Inr (foldl dadd (Fin 0) (map2 (\<lambda>a b. ?f b a) L_dbl L_sgl))"
      using assms(8) opB by (intro inner_product_total) simp_all
    also have "map2 (\<lambda>a b. ?f b a) L_dbl L_sgl = map2 ?f L_sgl L_dbl"
      by (rule map2_swap [symmetric])
    finally show ?thesis using assms(1) by (simp add: g evaluate_def ploidy_def accumulate_def)
  qed
qed

theorem evaluate_triploid_zygosity2_witness:
  "evaluate \<lparr>primed = True, vectors = [1 \<mapsto> [Fin (ln (8 / 10))], 2 \<mapsto> [Fin (ln (2 / 10))]]\<rparr>
     (make_genotype [1, 1, 2]) = Inr (Fin (ln (6 / 10)))
   \<and> evaluate \<lparr>primed = True, vectors = [2 \<mapsto> [Fin (ln (8 / 10))], 1 \<mapsto> [Fin (ln (2 / 10))]]\<rparr>
     (make_genotype [2, 1, 2]) = Inr (Fin (ln (6 / 10)))"
proof -
  have v: "accumulate (map2 (\<lambda>s d. dsub (log_sum_exp [s, dadd (Fin (ln 2)) d]) (Fin (ln 3)))
             [Fin (ln (2 / 10))] [Fin (ln (8 / 10))]) (Fin 0) = Fin (ln (6 / 10))"
  proof -
    have "exp (ln 2 + ln (8 / 10 :: real)) = 16 / 10"
      by (simp add: exp_add)
    then have "log_sum_exp [Fin (ln (2 / 10)), dadd (Fin (ln 2)) (Fin (ln (8 / 10)))] = Fin (ln (18 / 10))"
      by (simp add: log_sum_exp_def)
    moreover have "ln (18 / 10 :: real) - ln 3 = ln (6 / 10)"
      using ln_div [of "18 / 10 :: real" 3] by simp
    ultimately show ?thesis by (simp add: accumulate_def dsub_def)
  qed
  show ?thesis
    using evaluate_triploid_zygosity2 [of
        "\<lparr>primed = True, vectors = [1 \<mapsto> [Fin (ln (8 / 10))], 2 \<mapsto> [Fin (ln (2 / 10))]]\<rparr>"
        1 2 "[1, 1, 2]" "[Fin (ln (8 / 10))]" "[Fin (ln (2 / 10))]"]
      evaluate_triploid_zygosity2 [of
        "\<lparr>primed = True, vectors = [2 \<mapsto> [Fin (ln (8 / 10))], 1 \<mapsto> [Fin (ln (2 / 10))]]\<rparr>"
        2 1 "[2, 1, 2]" "[Fin (ln (8 / 10))]" "[Fin (ln (2 / 10))]"]
    unfolding v by (simp add: is_primed_def)
qed

lemma dadd_zero_left [simp]: "dadd (Fin 0) b = b"
  by (cases b) simp_all

lemma cache_at_Some: "vectors c h = Some v \<Longrightarrow> cache_at c h = Inr v"
  by (simp add: cache_at_def)

lemma column_total:
  "\<forall>v \<in> set vs. i < length v \<Longrightarrow> column vs i = Inr (map (\<lambda>v. v ! i) vs)"
  by (induction vs) simp_all

lemma poly_loop_total:
  "ln_small k = Inr lk \<Longrightarrow> \<forall>i \<in> set is. \<forall>v \<in> set vs. i < length v \<Longrightarrow>
   poly_loop vs k r is =
     Inr (foldl dadd r (map (\<lambda>i. dsub (log_sum_exp (map (\<lambda>v. v ! i) vs)) lk) is))"
  by (induction "is" arbitrary: r) (simp_all add: column_total)

lemma sorted_two:
  assumes "length (hs::nat list) = 2"
  shows "\<exists>a b. sort hs = [a, b] \<and> a \<le> b \<and> set hs = {a, b}"
proof -
  have "length (sort hs) = 2" using assms by simp
  then obtain a b where ab: "sort hs = [a, b]"
    by (cases "sort hs"; cases "tl (sort hs)") auto
  have "sorted (sort hs)" by simp
  then have "a \<le> b" unfolding ab by simp
  moreover have "set hs = {a, b}" using set_sort [of "\<lambda>x. x" hs] unfolding ab by simp
  ultimately show ?thesis using ab by blast
qed

lemma sorted_three:
  assumes "length (hs::nat list) = 3"
  shows "\<exists>a b c. sort hs = [a, b, c] \<and> a \<le> b \<and> b \<le> c \<and> set hs = {a, b, c}"
proof -
  have "length (sort hs) = 3" using assms by simp
  then obtain a b c where abc: "sort hs = [a, b, c]"
    by (cases "sort hs"; cases "tl (sort hs)"; cases "tl (tl (sort hs))") auto
  have "sorted (sort hs)" by simp
  then have "a \<le> b \<and> b \<le> c" unfolding abc by simp
  moreover have "set hs = {a, b, c}" using set_sort [of "\<lambda>x. x" hs] unfolding abc by simp
  ultimately show ?thesis using abc by blast
qed

lemma ln_small_Suc:
  "ln_small (Suc (Suc 0)) = Inr (Fin (ln 2))"
  "ln_small (Suc (Suc (Suc 0))) = Inr (Fin (ln 3))"
  by (simp_all add: ln_small_def lnLookup_def)

lemma three_columns:
  assumes "length ys = length xs" and "length zs = length xs"
  shows "map (\<lambda>i. F (map (\<lambda>v. v ! i) [xs, ys, zs])) [0 ..< length xs] =
         map (\<lambda>(a, b, c). F [a, b, c]) (zip xs (zip ys zs))"
  using assms by (intro nth_equalityI) simp_all

lemma evaluate_polyploid_general:
  assumes "genotype \<noteq> []" and "vectors c (hd genotype) = Some L"
    and "zygosity genotype \<noteq> 1" and "zygosity genotype \<noteq> 2"
  shows "evaluate_polyploid c genotype = general_polyploid_path c genotype"
proof -
  from assms(1) have "genotype_at genotype 0 = Inr (hd genotype)"
    by (cases genotype) (simp_all add: genotype_at_def)
  then show ?thesis
    using assms(3,4)
    by (simp add: evaluate_polyploid_def general_polyploid_path_def cache_at_Some [OF assms(2)])
qed

lemma log_sum_exp_same2: "dsub (log_sum_exp [a, a]) (Fin (ln 2)) = a"
proof (cases a)
  case (Fin x)
  have "ln (exp x + exp x) = ln 2 + x"
    using ln_mult [of 2 "exp x"] by simp
  then show ?thesis using Fin by (simp add: log_sum_exp_def dsub_def)
qed (simp_all add: log_sum_exp_def dsub_def)

lemma log_sum_exp_same3: "dsub (log_sum_exp [a, a, a]) (Fin (ln 3)) = a"
proof (cases a)
  case (Fin x)
  have "ln (exp x + (exp x + exp x)) = ln 3 + x"
    using ln_mult [of 3 "exp x"] by simp
  then show ?thesis using Fin by (simp add: log_sum_exp_def dsub_def)
qed (simp_all add: log_sum_exp_def dsub_def)

lemma log_sum_exp_doubled_right:
  "log_sum_exp [s, dadd (Fin (ln 2)) d] = log_sum_exp [s, d, d]"
  by (cases s; cases d) (simp_all add: log_sum_exp_def exp_add)

lemma log_sum_exp_doubled_left:
  "log_sum_exp [dadd (Fin (ln 2)) d, s] = log_sum_exp [d, d, s]"
  by (cases s; cases d) (simp_all add: log_sum_exp_def exp_add)

lemma two_columns:
  assumes "length ys = length xs"
  shows "map (\<lambda>i. F (map (\<lambda>v. v ! i) [xs, ys])) [0 ..< length xs] =
         map2 (\<lambda>a b. F [a, b]) xs ys"
  using assms by (intro nth_equalityI) simp_all

lemma general_path_two:
  assumes "vectors c a = Some La" and "vectors c b = Some Lb" and "length Lb = length La"
  shows "general_polyploid_path c [a, b] =
     Inr (foldl dadd (Fin 0) (map2 (\<lambda>x y. dsub (log_sum_exp [x, y]) (Fin (ln 2))) La Lb))"
proof -
  have "\<forall>i \<in> set [0 ..< length La]. \<forall>v \<in> set [La, Lb]. i < length v"
    using assms(3) by simp
  from poly_loop_total [OF ln_small_Suc(1) this]
  have "poly_loop [La, Lb] (Suc (Suc 0)) (Fin 0) [0 ..< length La] =
     Inr (foldl dadd (Fin 0)
       (map (\<lambda>i. dsub (log_sum_exp (map (\<lambda>v. v ! i) [La, Lb])) (Fin (ln 2))) [0 ..< length La]))" .
  also have "map (\<lambda>i. dsub (log_sum_exp (map (\<lambda>v. v ! i) [La, Lb])) (Fin (ln 2))) [0 ..< length La] =
     map2 (\<lambda>x y. dsub (log_sum_exp [x, y]) (Fin (ln 2))) La Lb"
    using assms(3) by (rule two_columns)
  finally show ?thesis
    by (simp add: general_polyploid_path_def ploidy_def cache_at_Some [OF assms(1)]
          cache_at_Some [OF assms(2)])
qed

lemma general_path_three:
  assumes "vectors c a = Some La" and "vectors c b = Some Lb" and "vectors c c' = Some Lc"
    and "length Lb = length La" and "length Lc = length La"
  shows "general_polyploid_path c [a, b, c'] =
     Inr (foldl dadd (Fin 0)
       (map (\<lambda>(x, y, z). dsub (log_sum_exp [x, y, z]) (Fin (ln 3))) (zip La (zip Lb Lc))))"
proof -
  have "\<forall>i \<in> set [0 ..< length La]. \<forall>v \<in> set [La, Lb, Lc]. i < length v"
    using assms(4,5) by simp
  from poly_loop_total [OF ln_small_Suc(2) this]
  have "poly_loop [La, Lb, Lc] (Suc (Suc (Suc 0))) (Fin 0) [0 ..< length La] =
     Inr (foldl dadd (Fin 0)
       (map (\<lambda>i. dsub (log_sum_exp (map (\<lambda>v. v ! i) [La, Lb, Lc])) (Fin (ln 3))) [0 ..< length La]))" .
  also have "map (\<lambda>i. dsub (log_sum_exp (map (\<lambda>v. v ! i) [La, Lb, Lc])) (Fin (ln 3))) [0 ..< length La] =
     map (\<lambda>(x, y, z). dsub (log_sum_exp [x, y, z]) (Fin (ln 3))) (zip La (zip Lb Lc))"
    using assms(4,5) by (rule three_columns)
  finally show ?thesis
    by (simp add: general_polyploid_path_def ploidy_def cache_at_Some [OF assms(1)]
          cache_at_Some [OF assms(2)] cache_at_Some [OF assms(3)])
qed

lemma zip_same: "zip xs xs = map (\<lambda>x. (x, x)) xs"
  by (induction xs) simp_all

lemma zip_first_two_same: "length ys = length xs \<Longrightarrow>
  map (\<lambda>(x, y, z). f x y z) (zip xs (zip xs ys)) = map2 (\<lambda>x z. f x x z) xs ys"
  by (induction xs ys rule: list_induct2') simp_all

lemma zip_last_two_same: "length ys = length xs \<Longrightarrow>
  map (\<lambda>(x, y, z). f x y z) (zip xs (zip ys ys)) = map2 (\<lambda>x y. f x y y) xs ys"
  by (induction xs ys rule: list_induct2') simp_all

lemma diploid_agrees_with_general_path:
  assumes "a \<le> b" and "vectors c a = Some La" and "vectors c b = Some Lb"
    and "length Lb = length La"
  shows "evaluate_diploid c [a, b] = general_polyploid_path c [a, b]"
proof (cases "a = b")
  case True
  with assms have L: "Lb = La" by simp
  have "evaluate_diploid c [a, b] = Inr (foldl dadd (Fin 0) La)"
    using True L
    by (simp add: evaluate_diploid_def genotype_at_def is_homozygous_def zygosity_def
          cache_at_Some [OF assms(2)] cache_at_Some [OF assms(3)] accumulate_def)
  moreover have "map2 (\<lambda>x y. dsub (log_sum_exp [x, y]) (Fin (ln 2))) La La = La"
    by (simp add: zip_same log_sum_exp_same2 comp_def)
  ultimately show ?thesis
    using general_path_two [OF assms(2,3,4)] L by simp
next
  case False
  have "evaluate_diploid c [a, b] =
      Inr (foldl dadd (Fin 0) (map2 (\<lambda>x y. dsub (log_sum_exp [x, y]) (Fin (ln 2))) La Lb))"
    using False assms(4)
    by (simp add: evaluate_diploid_def genotype_at_def is_homozygous_def zygosity_def
          cache_at_Some [OF assms(2)] cache_at_Some [OF assms(3)]
          inner_product_total [where f = "\<lambda>x y. dsub (log_sum_exp [x, y]) (Fin (ln 2))"]
          ln_small_values)
  then show ?thesis using general_path_two [OF assms(2,3,4)] by simp
qed

lemma zip_all_same:
  "map (\<lambda>(x, y, z). f x y z) (zip xs (zip xs xs)) = map (\<lambda>x. f x x x) xs"
  by (induction xs) simp_all

lemma triploid_agrees_with_general_path:
  assumes "a \<le> b" and "b \<le> c'"
    and "vectors c a = Some La" and "vectors c b = Some Lb" and "vectors c c' = Some Lc"
    and "length Lb = length La" and "length Lc = length La"
  shows "evaluate_triploid c [a, b, c'] = general_polyploid_path c [a, b, c']"
proof -
  note ca = cache_at_Some [OF assms(3)] and cb = cache_at_Some [OF assms(4)]
    and cc = cache_at_Some [OF assms(5)]
  note gen = general_path_three [OF assms(3,4,5,6,7)]
  let ?F = "\<lambda>x y z. dsub (log_sum_exp [x, y, z]) (Fin (ln 3))"
  consider "a = b" "b = c'" | "a = b" "b < c'" | "a < b" "b = c'" | "a < b" "b < c'"
    using assms(1,2) by linarith
  then show ?thesis
  proof cases
    case 1
    with assms have L: "Lb = La" "Lc = La" by simp_all
    have "evaluate_triploid c [a, b, c'] = Inr (foldl dadd (Fin 0) La)"
      using 1 L
      by (simp add: evaluate_triploid_def genotype_at_def is_homozygous_def zygosity_def
            ca cb cc accumulate_def)
    moreover have "map (\<lambda>(x, y, z). ?F x y z) (zip La (zip La La)) = La"
      by (simp only: zip_all_same log_sum_exp_same3 map_ident)
    ultimately show ?thesis using gen L by simp
  next
    case 2
    then have ne: "a \<noteq> c'" "b \<noteq> c'" by simp_all
    from 2 assms have L: "Lb = La" by simp
    have "evaluate_triploid c [a, b, c'] =
        Inr (foldl dadd (Fin 0)
          (map2 (\<lambda>x z. dsub (log_sum_exp [dadd (Fin (ln 2)) x, z]) (Fin (ln 3))) La Lc))"
      using 2(1) ne L assms(7)
      by (simp add: evaluate_triploid_def genotype_at_def is_homozygous_def zygosity_def
            ca cb cc ln_small_values
            inner_product_total [where f = "\<lambda>x z. dsub (log_sum_exp [dadd (Fin (ln 2)) x, z]) (Fin (ln 3))"])
    moreover have "map (\<lambda>(x, y, z). ?F x y z) (zip La (zip La Lc)) =
        map2 (\<lambda>x z. dsub (log_sum_exp [dadd (Fin (ln 2)) x, z]) (Fin (ln 3))) La Lc"
      using assms(7) by (simp add: zip_first_two_same log_sum_exp_doubled_left)
    ultimately show ?thesis using gen L by simp
  next
    case 3
    then have ne: "a \<noteq> c'" "a \<noteq> b" by simp_all
    from 3 assms have L: "Lc = Lb" by simp
    have "evaluate_triploid c [a, b, c'] =
        Inr (foldl dadd (Fin 0)
          (map2 (\<lambda>x y. dsub (log_sum_exp [x, dadd (Fin (ln 2)) y]) (Fin (ln 3))) La Lb))"
      using 3(2) ne L assms(6)
      by (simp add: evaluate_triploid_def genotype_at_def is_homozygous_def zygosity_def
            ca cb cc ln_small_values
            inner_product_total [where f = "\<lambda>x y. dsub (log_sum_exp [x, dadd (Fin (ln 2)) y]) (Fin (ln 3))"])
    moreover have "map (\<lambda>(x, y, z). ?F x y z) (zip La (zip Lb Lb)) =
        map2 (\<lambda>x y. dsub (log_sum_exp [x, dadd (Fin (ln 2)) y]) (Fin (ln 3))) La Lb"
      using assms(6) by (simp add: zip_last_two_same log_sum_exp_doubled_right)
    ultimately show ?thesis using gen L by simp
  next
    case 4
    then have ne: "a \<noteq> c'" "a \<noteq> b" "b \<noteq> c'" by simp_all
    have "evaluate_triploid c [a, b, c'] =
        Inr (foldl dadd (Fin 0) (map (\<lambda>(x, y, z). ?F x y z) (zip La (zip Lb Lc))))"
      using ne assms(6,7)
      by (simp add: evaluate_triploid_def genotype_at_def is_homozygous_def zygosity_def ca cb cc
            inner_product3_total [where f = ?F] ln_small_values)
    then show ?thesis using gen by simp
  qed
qed

text \<open>
  For ploidy 2 and 3 the specialised paths return what the general path returns, for
  every zygosity: in a primed cache that holds a vector of one common length for every
  haplotype of the genotype, \<^verbatim>\<open>evaluate\<close> and the general path agree.
\<close>

lemma diploid_triploid_agree_with_general_path:
  assumes "is_primed c" and "length hs = 2 \<or> length hs = 3"
    and "\<forall>h \<in> set hs. \<exists>v. vectors c h = Some v \<and> length v = n"
  shows "evaluate c (make_genotype hs) = general_polyploid_path c (make_genotype hs)"
proof -
  consider "length hs = 2" | "length hs = 3" using assms(2) by blast
  then show ?thesis
  proof cases
    case 1
    from sorted_two [OF 1] obtain a b where ab: "sort hs = [a, b]" "a \<le> b" "set hs = {a, b}"
      by blast
    from assms(3) ab(3) obtain La Lb where
      "vectors c a = Some La" "vectors c b = Some Lb" "length Lb = length La"
      by auto
    from diploid_agrees_with_general_path [OF ab(2) this] show ?thesis
      using assms(1) by (simp add: evaluate_def ploidy_def make_genotype_def ab(1))
  next
    case 2
    from sorted_three [OF 2] obtain a b c' where
      abc: "sort hs = [a, b, c']" "a \<le> b" "b \<le> c'" "set hs = {a, b, c'}"
      by blast
    from assms(3) abc(4) obtain La Lb Lc where
      "vectors c a = Some La" "vectors c b = Some Lb" "vectors c c' = Some Lc"
      "length Lb = length La" "length Lc = length La"
      by auto
    from triploid_agrees_with_general_path [OF abc(2,3) this] show ?thesis
      using assms(1) by (simp add: evaluate_def ploidy_def make_genotype_def abc(1))
  qed
qed

lemma lnLookup_map: "lnLookup = PosInf # map (\<lambda>i. Fin (ln (real i))) [1 ..< 11]"
proof -
  have "[1 ..< 11] = [1, 2, 3, 4, 5, 6, 7, 8, 9, 10 :: nat]"
    by code_simp
  then show ?thesis by (simp add: lnLookup_def)
qed

lemma ln_small_cases:
  "ln_small n =
     (if n = 0 then Inr PosInf
      else if n \<le> 10 then Inr (Fin (ln (real n)))
      else Inl OutOfBounds)"
proof -
  have len: "length lnLookup = 11" by (simp add: lnLookup_def)
  show ?thesis
  proof (cases "n = 0")
    case True
    then show ?thesis by (simp add: ln_small_def lnLookup_def)
  next
    case False
    show ?thesis
    proof (cases "n \<le> 10")
      case True
      from False obtain m where m: "n = Suc m" by (cases n) auto
      with True have "m < 10" by simp
      then have "lnLookup ! n = Fin (ln (real n))"
        unfolding lnLookup_map m by simp
      then show ?thesis using True False by (simp add: ln_small_def len)
    next
      case False
      then show ?thesis by (simp add: ln_small_def len)
    qed
  qed
qed

text \<open>
  Claim C5 does not hold of the code. The table lookup returns \<open>+\<infinity>\<close> for 0 and \<open>ln n\<close>
  for \<open>n\<close> from 1 to 10, but for \<open>n > 10\<close> there is no fallback to the library logarithm:
  \<^verbatim>\<open>lnLookup[n]\<close> reads past the 11 entries. \<^verbatim>\<open>evaluate\<close> sends every ploidy above 4 to
  \<^verbatim>\<open>evaluate_polyploid\<close>, which calls \<^verbatim>\<open>ln<>(ploidy)\<close> for each read; a genotype of
  ploidy 11 and zygosity 2 with one read therefore leaves the table.
\<close>

theorem ln_small_past_table:
  "(\<forall>n. ln_small n =
         (if n = 0 then Inr PosInf
          else if n \<le> 10 then Inr (Fin (ln (real n)))
          else Inl OutOfBounds))
   \<and> ploidy (make_genotype [1, 2, 2, 2, 2, 2, 2, 2, 2, 2, 2]) = 11
   \<and> zygosity (make_genotype [1, 2, 2, 2, 2, 2, 2, 2, 2, 2, 2]) = 2
   \<and> evaluate \<lparr>primed = True, vectors = [1 \<mapsto> [Fin 0], 2 \<mapsto> [Fin 0]]\<rparr>
        (make_genotype [1, 2, 2, 2, 2, 2, 2, 2, 2, 2, 2]) = Inl OutOfBounds"
proof -
  have g: "make_genotype [1, 2, 2, 2, 2, 2, 2, 2, 2, 2, 2] = [1, 2, 2, 2, 2, 2, 2, 2, 2, 2, 2]"
    unfolding make_genotype_def by (rule sorted_sort_id) simp
  have p: "ploidy [1, 2, 2, 2, 2, 2, 2, 2, 2, 2, 2] = 11"
    by (simp add: ploidy_def)
  have z: "zygosity [1, 2, 2, 2, 2, 2, 2, 2, 2, 2, 2] = 2"
    by (simp add: zygosity_def)
  have u: "copy_unique_ref [1, 2, 2, 2, 2, 2, 2, 2, 2, 2, 2] = [1, 2]"
    by (simp add: copy_unique_ref_def)
  have cnt: "count [1, 2, 2, 2, 2, 2, 2, 2, 2, 2, 2] 1 = 1"
    by (simp add: count_def)
  have l11: "ln_small 11 = Inl OutOfBounds"
    by (simp add: ln_small_cases)
  have pol: "evaluate_polyploid \<lparr>primed = True, vectors = [1 \<mapsto> [Fin 0], 2 \<mapsto> [Fin 0]]\<rparr>
        [1, 2, 2, 2, 2, 2, 2, 2, 2, 2, 2] = Inl OutOfBounds"
    unfolding evaluate_polyploid_def p z u cnt Let_def
    by (simp add: genotype_at_def cache_at_def l11)
  have ev: "evaluate \<lparr>primed = True, vectors = [1 \<mapsto> [Fin 0], 2 \<mapsto> [Fin 0]]\<rparr>
        [1, 2, 2, 2, 2, 2, 2, 2, 2, 2, 2] = Inl OutOfBounds"
    unfolding evaluate_def p pol by (simp add: is_primed_def)
  show ?thesis unfolding g using ln_small_cases p z ev by blast
qed

text \<open>
  The unfinished function for comparison: on a genotype of zygosity 2 or 3 whose first
  haplotype is in the cache, \<^verbatim>\<open>evaluate_tetraploid\<close> returns 0 whatever the vectors hold.
  \<^verbatim>\<open>evaluate\<close> never reaches it.
\<close>

lemma evaluate_tetraploid_unfinished:
  assumes "genotype \<noteq> []" and "vectors c (hd genotype) = Some L"
    and "zygosity genotype = 2 \<or> zygosity genotype = 3"
  shows "evaluate_tetraploid c genotype = Inr (Fin 0)"
proof -
  from assms(1) have "genotype_at genotype 0 = Inr (hd genotype)"
    by (cases genotype) (simp_all add: genotype_at_def)
  then show ?thesis
    using assms(3) by (auto simp: evaluate_tetraploid_def cache_at_Some [OF assms(2)])
qed

text \<open>
  The zygosity-2 branch of \<^verbatim>\<open>evaluate_polyploid\<close> weights one haplotype by
  \<open>ploidy - 1\<close> and the other by 1, whatever the multiplicities are. For the tetraploid
  genotype with two haplotypes occurring twice each, vectors \<open>[ln 0.8]\<close> and \<open>[ln 0.2]\<close>,
  the result is \<open>ln ((3 \<cdot> 0.8 + 0.2) / 4) = ln 0.65\<close>.
\<close>

lemma polyploid_balanced_zygosity2_value:
  "evaluate \<lparr>primed = True, vectors = [1 \<mapsto> [Fin (ln (4 / 5))], 2 \<mapsto> [Fin (ln (1 / 5))]]\<rparr>
     (make_genotype [1, 1, 2, 2]) = Inr (Fin (ln (13 / 20)))"
proof -
  have g: "make_genotype [1, 1, 2, 2] = [1, 1, 2, 2]"
    by (simp add: make_genotype_def)
  have e: "exp (ln 3 + ln (4 / 5 :: real)) = 12 / 5"
    by (simp add: exp_add)
  have l3: "std_log (Suc (Suc (Suc 0))) = Fin (ln 3)" by (simp add: std_log_def)
  have k4: "ln_small (Suc (Suc (Suc (Suc 0)))) = Inr (Fin (ln 4))"
    by (simp add: ln_small_def lnLookup_def)
  have lse: "log_sum_exp [Fin (ln 3 + ln (4 / 5)), Fin (ln (1 / 5))] = Fin (ln (13 / 5))"
    using e by (simp add: log_sum_exp_def)
  have d: "ln (13 / 5 :: real) - ln 4 = ln (13 / 20)"
    using ln_div [of "13 / 5 :: real" 4] by simp
  have "evaluate_polyploid \<lparr>primed = True, vectors = [1 \<mapsto> [Fin (ln (4 / 5))], 2 \<mapsto> [Fin (ln (1 / 5))]]\<rparr>
     [1, 1, 2, 2] = Inr (Fin (ln (13 / 5) - ln 4))"
    by (simp add: evaluate_polyploid_def genotype_at_def cache_at_def zygosity_def ploidy_def
          copy_unique_ref_def count_def l3 k4 lse dsub_def Let_def)
  then show ?thesis
    unfolding g d by (simp add: evaluate_def is_primed_def ploidy_def)
qed

text \<open>
  Claim C4 does not hold of the code. For ploidy 2 and 3 the specialised paths agree with
  the general path (lemma \<open>diploid_triploid_agree_with_general_path\<close>). For ploidy 4
  \<^verbatim>\<open>evaluate\<close> calls \<^verbatim>\<open>evaluate_polyploid\<close>, and its zygosity-2 shortcut is not the
  general path: on the tetraploid genotype \<open>(1, 1, 2, 2)\<close> of zygosity 2, with vectors
  \<open>[ln 0.8]\<close> and \<open>[ln 0.2]\<close>, \<^verbatim>\<open>evaluate\<close> returns \<open>ln 0.65\<close> while the general path
  returns \<open>ln ((0.8 + 0.8 + 0.2 + 0.2) / 4) = ln 0.5\<close>, and the two values are not within
  the tolerance.
\<close>

theorem tetraploid_balanced_zygosity2_disagrees:
  "ploidy (make_genotype [1, 1, 2, 2]) = 4
   \<and> zygosity (make_genotype [1, 1, 2, 2]) = 2
   \<and> evaluate \<lparr>primed = True, vectors = [1 \<mapsto> [Fin (ln (4 / 5))], 2 \<mapsto> [Fin (ln (1 / 5))]]\<rparr>
        (make_genotype [1, 1, 2, 2]) = Inr (Fin (ln (13 / 20)))
   \<and> general_polyploid_path
        \<lparr>primed = True, vectors = [1 \<mapsto> [Fin (ln (4 / 5))], 2 \<mapsto> [Fin (ln (1 / 5))]]\<rparr>
        (make_genotype [1, 1, 2, 2]) = Inr (Fin (ln (1 / 2)))
   \<and> \<not> within_tolerance (Fin (ln (13 / 20))) (Fin (ln (1 / 2)))"
proof -
  have g: "make_genotype [1, 1, 2, 2] = [1, 1, 2, 2]"
    by (simp add: make_genotype_def)
  have p: "ploidy [1, 1, 2, 2] = 4" by (simp add: ploidy_def)
  have z: "zygosity [1, 1, 2, 2] = 2" by (simp add: zygosity_def)
  have k4: "ln_small (Suc (Suc (Suc (Suc 0)))) = Inr (Fin (ln 4))"
    by (simp add: ln_small_def lnLookup_def)
  have lse: "log_sum_exp [Fin (ln (4 / 5)), Fin (ln (4 / 5)), Fin (ln (1 / 5)), Fin (ln (1 / 5))]
      = Fin (ln 2)"
    by (simp add: log_sum_exp_def)
  have d: "ln (2 :: real) - ln 4 = ln (1 / 2)"
    using ln_div [of "2 :: real" 4] by simp
  have gen: "general_polyploid_path
        \<lparr>primed = True, vectors = [1 \<mapsto> [Fin (ln (4 / 5))], 2 \<mapsto> [Fin (ln (1 / 5))]]\<rparr>
        [1, 1, 2, 2] = Inr (Fin (ln (1 / 2)))"
    unfolding d [symmetric]
    by (simp add: general_polyploid_path_def ploidy_def cache_at_def k4 lse dsub_def)
  have lo: "3 / 13 \<le> ln (13 / 20 :: real) - ln (1 / 2)"
  proof -
    have "ln (10 / 13 :: real) \<le> 10 / 13 - 1" by (rule ln_le_minus_one) simp
    moreover have "ln (10 / 13 :: real) = ln (1 / 2) - ln (13 / 20)"
      using ln_div [of "1 / 2 :: real" "13 / 20"] by simp
    ultimately show ?thesis by simp
  qed
  have a1: "\<bar>ln (13 / 20 :: real)\<bar> \<le> 1"
  proof -
    have "ln (20 / 13 :: real) \<le> 20 / 13 - 1" by (rule ln_le_minus_one) simp
    moreover have "ln (20 / 13 :: real) = - ln (13 / 20)"
      using ln_div [of "1 :: real" "13 / 20"] by simp
    moreover have "ln (13 / 20 :: real) \<le> 0" by simp
    ultimately show ?thesis by simp
  qed
  have a2: "\<bar>ln (1 / 2 :: real)\<bar> \<le> 1"
  proof -
    have "ln (2 :: real) \<le> 2 - 1" by (rule ln_le_minus_one) simp
    moreover have "ln (1 / 2 :: real) = - ln 2"
      using ln_div [of "1 :: real" 2] by simp
    moreover have "0 \<le> ln (2 :: real)" by simp
    ultimately show ?thesis by simp
  qed
  have m: "max \<bar>ln (13 / 20 :: real)\<bar> \<bar>ln (1 / 2 :: real)\<bar> \<le> 1"
    using a1 a2 by simp
  have far: "\<not> within_tolerance (Fin (ln (13 / 20))) (Fin (ln (1 / 2)))"
  proof -
    have "\<bar>ln (13 / 20 :: real) - ln (1 / 2)\<bar> \<ge> 3 / 13" using lo by simp
    moreover have "(1 / 10 ^ 12) * max \<bar>ln (13 / 20 :: real)\<bar> \<bar>ln (1 / 2 :: real)\<bar> \<le> 1 / 10 ^ 12"
      using m by simp
    moreover have "(1 / 10 ^ 9 :: real) < 3 / 13" and "(1 / 10 ^ 12 :: real) < 3 / 13"
      by simp_all
    ultimately have "\<not> (\<bar>ln (13 / 20 :: real) - ln (1 / 2)\<bar> \<le> 1 / 10 ^ 9
        \<or> \<bar>ln (13 / 20 :: real) - ln (1 / 2)\<bar> \<le> (1 / 10 ^ 12) * max \<bar>ln (13 / 20 :: real)\<bar> \<bar>ln (1 / 2 :: real)\<bar>)"
      by linarith
    then show ?thesis unfolding within_tolerance_def prod.case double.case .
  qed
  show ?thesis
    unfolding g using p z polyploid_balanced_zygosity2_value [unfolded g] gen far
    by (intro conjI)
qed

end
